theory Spec2Isabelle
  imports Complex_Main
begin

section \<open>The scene of GameScene.ts as explicit state\<close>

text \<open>
  GameScene.ts is one Phaser scene class. Its private fields become the fields of the
  record \<open>scene\<close>; every Phaser game object the scene refers to lives in a store
  \<open>objs\<close> indexed by an object identity, so that the identity test
  \<^verbatim>\<open>obj === this.worm\<close> of the source is equality of identities. A destroyed
  object stays in the store (the JavaScript object still exists) with \<open>active = False\<close>.
  Object references that the source treats as possibly null or undefined
  (\<^verbatim>\<open>obj?: GameObject | null\<close>, \<^verbatim>\<open>bullet?.active\<close>) are \<open>oid option\<close>.
\<close>

type_synonym oid = nat

text \<open>
  The parts of a game object that the scene reads or writes: \<open>active\<close>, the position
  (\<open>xpos\<close>, \<open>ypos\<close> for the source's \<^verbatim>\<open>x\<close> and \<^verbatim>\<open>y\<close>; finite JavaScript numbers,
  compared only with constants, are taken as reals), and the two data entries
  \<^verbatim>\<open>getData('hasHit')\<close> and \<^verbatim>\<open>getData('isShooter')\<close> (an absent entry is
  undefined, which the source reads as false).
\<close>

record gobj =
  active :: bool
  xpos :: real
  ypos :: real
  hasHit :: bool
  isShooter :: bool

text \<open>
  The callbacks that the scene hands to \<^verbatim>\<open>this.time.addEvent\<close> and
  \<^verbatim>\<open>this.time.delayedCall\<close>. The two timers of one \<^verbatim>\<open>spawnWave\<close> call share the
  closure variables \<^verbatim>\<open>count\<close> and \<^verbatim>\<open>spawned\<close>; the call is identified by a number
  and its closure is the record \<open>waveRun\<close>.
\<close>

datatype callback =
    ClearInvulnerable
  | SpawnTick nat
  | CheckWave nat
  | NextWave
  | ShootTick oid
  | HeartTick

record timerEvent =
  cb :: callback
  delay :: int
  loop :: bool
  elapsed :: int

record waveRun =
  count :: int
  spawned :: int

record scene =
  objs :: "oid \<Rightarrow> gobj"
  nextId :: oid
  worm :: oid
  enemies :: "oid list"
  playerBullets :: "oid list"
  enemyBullets :: "oid list"
  hearts :: "oid list"
  gameStarted :: bool
  isGameOver :: bool
  invulnerable :: bool
  score :: int
  health :: int
  maxHealth :: int
  lives :: int
  wave :: int
  enemiesPerWave :: int
  timers :: "timerEvent list"
  runs :: "nat \<Rightarrow> waveRun"
  nextRun :: nat
  warnings :: "string list"

text \<open>The constants of GameScene.ts and the logical size configured in main.ts.\<close>

definition INVULNERABLE_MS_AFTER_HIT :: int where
  "INVULNERABLE_MS_AFTER_HIT = 700"

definition HEART_HEAL_AMOUNT :: int where
  "HEART_HEAL_AMOUNT = 28"

definition scaleWidth :: real where
  "scaleWidth = 900"

definition scaleHeight :: real where
  "scaleHeight = 505"

section \<open>Engine primitives used by the scene\<close>

text \<open>\<^verbatim>\<open>console.warn\<close>: the message is appended to the log.\<close>

definition warn :: "string \<Rightarrow> scene \<Rightarrow> scene" where
  "warn m s = s\<lparr>warnings := warnings s @ [m]\<rparr>"

text \<open>\<^verbatim>\<open>bullet?.active\<close>: false for a null or undefined reference.\<close>

definition refActive :: "oid option \<Rightarrow> scene \<Rightarrow> bool" where
  "refActive r s = (case r of None \<Rightarrow> False | Some i \<Rightarrow> active (objs s i))"

text \<open>
  \<^verbatim>\<open>GameObject.destroy()\<close> in normal operation, as far as the scene can observe it:
  the object becomes inactive, every group drops it, and its \<^verbatim>\<open>'destroy'\<close>
  listeners run. The only listener the scene registers is the one of \<^verbatim>\<open>spawnWave\<close>
  on a shooter enemy, which removes that enemy's shoot timer. The object's data manager is
  destroyed with it, so that \<^verbatim>\<open>getData\<close> reads undefined afterwards: both data
  entries read as false.
\<close>

definition destroy :: "oid \<Rightarrow> scene \<Rightarrow> scene" where
  "destroy i s = s\<lparr>objs := (objs s)(i := (objs s i)\<lparr>active := False, hasHit := False,
                                                   isShooter := False\<rparr>),
                   enemies := removeAll i (enemies s),
                   playerBullets := removeAll i (playerBullets s),
                   enemyBullets := removeAll i (enemyBullets s),
                   hearts := removeAll i (hearts s),
                   timers := filter (\<lambda>t. cb t \<noteq> ShootTick i) (timers s)\<rparr>"

text \<open>
  \<^verbatim>\<open>group.clear(true, true)\<close>: every child of the group is destroyed and the group
  is left empty.
\<close>

definition clearGroup :: "oid list \<Rightarrow> scene \<Rightarrow> scene" where
  "clearGroup g s = fold destroy g s"

text \<open>\<^verbatim>\<open>group.create(x, y, key)\<close>: a fresh active object, appended to the group.\<close>

definition newObj :: "real \<Rightarrow> real \<Rightarrow> gobj" where
  "newObj px py = \<lparr>active = True, xpos = px, ypos = py, hasHit = False, isShooter = False\<rparr>"

definition createEnemy :: "real \<Rightarrow> real \<Rightarrow> scene \<Rightarrow> scene" where
  "createEnemy px py s = s\<lparr>objs := (objs s)(nextId s := newObj px py),
                           enemies := enemies s @ [nextId s],
                           nextId := Suc (nextId s)\<rparr>"

definition createPlayerBullet :: "real \<Rightarrow> real \<Rightarrow> scene \<Rightarrow> scene" where
  "createPlayerBullet px py s = s\<lparr>objs := (objs s)(nextId s := newObj px py),
                                  playerBullets := playerBullets s @ [nextId s],
                                  nextId := Suc (nextId s)\<rparr>"

definition createEnemyBullet :: "real \<Rightarrow> real \<Rightarrow> scene \<Rightarrow> scene" where
  "createEnemyBullet px py s = s\<lparr>objs := (objs s)(nextId s := newObj px py),
                                 enemyBullets := enemyBullets s @ [nextId s],
                                 nextId := Suc (nextId s)\<rparr>"

definition createHeart :: "real \<Rightarrow> real \<Rightarrow> scene \<Rightarrow> scene" where
  "createHeart px py s = s\<lparr>objs := (objs s)(nextId s := newObj px py),
                           hearts := hearts s @ [nextId s],
                           nextId := Suc (nextId s)\<rparr>"

text \<open>\<^verbatim>\<open>enemy.setData('hasHit', v)\<close> and \<^verbatim>\<open>enemy.setData('isShooter', v)\<close>.\<close>

definition setHasHit :: "oid \<Rightarrow> bool \<Rightarrow> scene \<Rightarrow> scene" where
  "setHasHit i v s = s\<lparr>objs := (objs s)(i := (objs s i)\<lparr>hasHit := v\<rparr>)\<rparr>"

definition setIsShooter :: "oid \<Rightarrow> bool \<Rightarrow> scene \<Rightarrow> scene" where
  "setIsShooter i v s = s\<lparr>objs := (objs s)(i := (objs s i)\<lparr>isShooter := v\<rparr>)\<rparr>"

text \<open>
  \<^verbatim>\<open>this.time.addEvent\<close> / \<^verbatim>\<open>this.time.delayedCall\<close> register a timer;
  \<^verbatim>\<open>timer.remove(false)\<close> cancels it without running its callback.
\<close>

definition addTimer :: "callback \<Rightarrow> int \<Rightarrow> bool \<Rightarrow> scene \<Rightarrow> scene" where
  "addTimer c d l s = s\<lparr>timers := timers s @ [\<lparr>cb = c, delay = d, loop = l, elapsed = 0\<rparr>]\<rparr>"

definition removeTimer :: "callback \<Rightarrow> scene \<Rightarrow> scene" where
  "removeTimer c s = s\<lparr>timers := filter (\<lambda>t. cb t \<noteq> c) (timers s)\<rparr>"

text \<open>\<^verbatim>\<open>Phaser.Math.Clamp(value, min, max)\<close> is \<^verbatim>\<open>Math.max(min, Math.min(max, value))\<close>.\<close>

definition clamp :: "int \<Rightarrow> int \<Rightarrow> int \<Rightarrow> int" where
  "clamp v lo hi = max lo (min hi v)"

text \<open>\<^verbatim>\<open>group.countActive(true)\<close>.\<close>

definition countActive :: "oid list \<Rightarrow> scene \<Rightarrow> nat" where
  "countActive g s = length (filter (\<lambda>i. active (objs s i)) g)"

section \<open>The helpers of GameScene.ts\<close>

text \<open>
  \<^verbatim>\<open>safeDestroy\<close>, with the engine's destroy call as a parameter so that a call that
  throws can be expressed: \<open>d i s\<close> is \<open>Inr s'\<close> when the call returns leaving \<open>s'\<close>,
  and \<open>Inl (err, s')\<close> when it throws \<open>err\<close> leaving \<open>s'\<close>. The result of
  \<open>safeDestroyWith\<close> uses the same convention, so an exception that left the function
  would be an \<open>Inl\<close>. (Every Phaser game object has a \<^verbatim>\<open>destroy\<close> method, so the
  \<^verbatim>\<open>typeof obj.destroy === 'function'\<close> test is true.)
\<close>

type_synonym exn = string

definition safeDestroyWith ::
  "(oid \<Rightarrow> scene \<Rightarrow> (exn \<times> scene) + scene) \<Rightarrow> oid option \<Rightarrow> scene \<Rightarrow> (exn \<times> scene) + scene" where
  "safeDestroyWith d obj s =
     (case obj of
        None \<Rightarrow> Inr s
      | Some i \<Rightarrow>
          if i = worm s
          then Inr (warn ''safeDestroy blocked: attempted to destroy player worm.'' s)
          else if \<not> active (objs s i) then Inr s
          else (case d i s of
                  Inr s' \<Rightarrow> Inr s'
                | Inl (err, s') \<Rightarrow> Inr (warn (''safeDestroy error '' @ err) s')))"

text \<open>\<^verbatim>\<open>safeDestroy\<close> on the engine in normal operation.\<close>

definition safeDestroy :: "oid option \<Rightarrow> scene \<Rightarrow> scene" where
  "safeDestroy obj s =
     (case safeDestroyWith (\<lambda>i s. Inr (destroy i s)) obj s of
        Inr s' \<Rightarrow> s'
      | Inl (err, s') \<Rightarrow> s')"

definition addScore :: "int \<Rightarrow> scene \<Rightarrow> scene" where
  "addScore n s = s\<lparr>score := score s + n\<rparr>"

definition heal :: "int \<Rightarrow> scene \<Rightarrow> scene" where
  "heal amount s =
     (if isGameOver s then s
      else s\<lparr>health := clamp (health s + amount) 0 (maxHealth s)\<rparr>)"

text \<open>
  \<^verbatim>\<open>endGame\<close>: the three \<^verbatim>\<open>clear(true, true)\<close> calls in the order of the source
  (the overlay and the restart button are display only).
\<close>

definition endGame :: "scene \<Rightarrow> scene" where
  "endGame s =
     (if isGameOver s then s
      else let s1 = s\<lparr>isGameOver := True, gameStarted := False\<rparr>;
               s2 = clearGroup (playerBullets s1) s1;
               s3 = clearGroup (enemyBullets s2) s2
           in clearGroup (hearts s3) s3)"

text \<open>\<^verbatim>\<open>loseLife\<close> (the tint of the worm is display only).\<close>

definition loseLife :: "scene \<Rightarrow> scene" where
  "loseLife s =
     (if isGameOver s then s
      else let s1 = s\<lparr>invulnerable := True\<rparr>;
               s2 = addTimer ClearInvulnerable INVULNERABLE_MS_AFTER_HIT False s1;
               s3 = s2\<lparr>lives := lives s2 - 1\<rparr>
           in if lives s3 \<le> 0 then endGame (s3\<lparr>lives := 0\<rparr>) else s3)"

text \<open>The callback of the delayed call in \<^verbatim>\<open>loseLife\<close>.\<close>

definition clearInvulnerable :: "scene \<Rightarrow> scene" where
  "clearInvulnerable s = s\<lparr>invulnerable := False\<rparr>"

section \<open>The overlap callbacks registered in create()\<close>

text \<open>player bullets -> enemy\<close>

definition bulletEnemy :: "oid option \<Rightarrow> oid option \<Rightarrow> scene \<Rightarrow> scene" where
  "bulletEnemy bullet enemy s =
     (if \<not> refActive bullet s \<or> \<not> refActive enemy s then s
      else if enemy = Some (worm s)
      then warn ''Attempted to destroy worm as enemy - blocked.'' s
      else addScore 10 (safeDestroy enemy (safeDestroy bullet s)))"

text \<open>player bullets -> enemy bullets\<close>

definition bulletEnemyBullet :: "oid option \<Rightarrow> oid option \<Rightarrow> scene \<Rightarrow> scene" where
  "bulletEnemyBullet pb eb s =
     (let s1 = (if refActive pb s then safeDestroy pb s else s)
      in if refActive eb s1 then safeDestroy eb s1 else s1)"

text \<open>enemy bullets -> worm\<close>

definition enemyBulletWorm :: "oid option \<Rightarrow> scene \<Rightarrow> scene" where
  "enemyBulletWorm eb s =
     (let s1 = (if refActive eb s then safeDestroy eb s else s)
      in if invulnerable s1 \<or> isGameOver s1 then s1 else loseLife s1)"

text \<open>enemies -> worm\<close>

definition enemyWorm :: "oid option \<Rightarrow> scene \<Rightarrow> scene" where
  "enemyWorm enemy s =
     (case enemy of
        None \<Rightarrow> s
      | Some i \<Rightarrow>
          if \<not> active (objs s i) then s
          else if hasHit (objs s i) then s
          else if invulnerable s \<or> isGameOver s then s
          else safeDestroy enemy (loseLife (setHasHit i True s)))"

text \<open>player bullets -> hearts\<close>

definition bulletHeart :: "oid option \<Rightarrow> oid option \<Rightarrow> scene \<Rightarrow> scene" where
  "bulletHeart pb h s =
     (let s1 = (if refActive pb s then safeDestroy pb s else s)
      in if refActive h s1 then heal HEART_HEAL_AMOUNT (safeDestroy h s1) else s1)"

text \<open>
  The two callbacks registered against the worm, with both parameters as the source
  declares them; each reads only its first one.
\<close>

definition enemyBulletsWormCallback :: "oid option \<Rightarrow> oid option \<Rightarrow> scene \<Rightarrow> scene" where
  "enemyBulletsWormCallback enemyB wormObj s = enemyBulletWorm enemyB s"

definition enemiesWormCallback :: "oid option \<Rightarrow> oid option \<Rightarrow> scene \<Rightarrow> scene" where
  "enemiesWormCallback enemyObj wormObj s = enemyWorm enemyObj s"

text \<open>
  How the engine calls a callback registered with \<^verbatim>\<open>overlap(group, sprite, callback)\<close>
  when a child of the group overlaps the sprite: for a group against a single sprite
  Phaser passes the sprite first and the group's child second, whatever their order in
  the \<^verbatim>\<open>overlap\<close> call. (A group against a group keeps the order.) The sprite of both
  registrations is the worm.
\<close>

definition overlapGroupSprite ::
  "(oid option \<Rightarrow> oid option \<Rightarrow> scene \<Rightarrow> scene) \<Rightarrow> oid \<Rightarrow> scene \<Rightarrow> scene" where
  "overlapGroupSprite callback child s = callback (Some (worm s)) (Some child) s"

section \<open>shootAt, cleanupObjects and update\<close>

text \<open>
  \<^verbatim>\<open>shootAt\<close>: one player bullet at the worm's position, 14 above it (velocity and
  rotation belong to the physics engine and are not part of the state).
\<close>

definition shootAt :: "scene \<Rightarrow> scene" where
  "shootAt s =
     (if \<not> gameStarted s \<or> isGameOver s then s
      else if \<not> active (objs s (worm s)) then s
      else createPlayerBullet (xpos (objs s (worm s))) (ypos (objs s (worm s)) - 14) s)"

text \<open>
  \<^verbatim>\<open>cleanupObjects\<close> runs the same loop over each of the four groups, in the order
  player bullets, enemy bullets, enemies, hearts:
  \<^verbatim>\<open>for (const x of group.getChildren()) { if (!x || !x.active) continue;
  if (COND) this.safeDestroy(x); }\<close>.
  \<open>children\<close> is \<^verbatim>\<open>getChildren()\<close> and \<open>offScreen\<close> is the test \<^verbatim>\<open>COND\<close> of each
  loop.
\<close>

datatype pool = PlayerBullets | EnemyBullets | Enemies | Hearts

fun children :: "pool \<Rightarrow> scene \<Rightarrow> oid list" where
  "children PlayerBullets s = playerBullets s"
| "children EnemyBullets s = enemyBullets s"
| "children Enemies s = enemies s"
| "children Hearts s = hearts s"

fun offScreen :: "pool \<Rightarrow> gobj \<Rightarrow> bool" where
  "offScreen PlayerBullets ob \<longleftrightarrow>
     ypos ob < - 80 \<or> xpos ob < - 80 \<or> xpos ob > scaleWidth + 80"
| "offScreen EnemyBullets ob \<longleftrightarrow>
     ypos ob > scaleHeight + 200 \<or> xpos ob < - 200 \<or> xpos ob > scaleWidth + 200"
| "offScreen Enemies ob \<longleftrightarrow> xpos ob > scaleWidth + 160"
| "offScreen Hearts ob \<longleftrightarrow> xpos ob > scaleWidth + 60"

text \<open>The body of the loop for the child \<open>x\<close> of group \<open>g\<close>.\<close>

definition cleanChild :: "pool \<Rightarrow> oid \<Rightarrow> scene \<Rightarrow> scene" where
  "cleanChild g x s =
     (if \<not> active (objs s x) then s
      else if offScreen g (objs s x) then safeDestroy (Some x) s else s)"

text \<open>
  The loop itself. \<^verbatim>\<open>getChildren()\<close> returns the group's own array, not a copy, and
  destroying a child takes it out of that array at once; the \<^verbatim>\<open>for...of\<close> iterator
  keeps an index into it. So the loop is: while the index \<open>i\<close> is within the array as it
  is now, run the body on the child at \<open>i\<close> and go on with \<open>i + 1\<close>. After a child is
  removed the next child has moved down to \<open>i\<close> and is not visited in this pass. The
  body never makes the array longer, so the loop ends.
\<close>

function cleanLoop :: "pool \<Rightarrow> nat \<Rightarrow> scene \<Rightarrow> scene" where
  "cleanLoop g i s =
     (if i < length (children g s)
      then cleanLoop g (Suc i) (cleanChild g (children g s ! i) s)
      else s)"
  by pat_completeness auto
termination
proof (relation "measure (\<lambda>(g, i, s). length (children g s) - i)")
  show "wf (measure (\<lambda>(g, i, s). length (children g s) - i))"
    by simp
next
  fix g :: pool and i :: nat and s :: scene
  assume less: "i < length (children g s)"
  have "length (children g (cleanChild g (children g s ! i) s)) \<le> length (children g s)"
    by (cases g)
       (simp_all add: cleanChild_def safeDestroy_def safeDestroyWith_def destroy_def warn_def)
  then have "length (children g (cleanChild g (children g s ! i) s)) - Suc i
      < length (children g s) - i"
    using less by arith
  then show "((g, Suc i, cleanChild g (children g s ! i) s), (g, i, s))
      \<in> measure (\<lambda>(g, i, s). length (children g s) - i)"
    by simp
qed

declare cleanLoop.simps [simp del]

definition cleanupObjects :: "scene \<Rightarrow> scene" where
  "cleanupObjects s =
     (let s1 = cleanLoop PlayerBullets 0 s;
          s2 = cleanLoop EnemyBullets 0 s1;
          s3 = cleanLoop Enemies 0 s2
      in cleanLoop Hearts 0 s3)"

text \<open>
  \<^verbatim>\<open>update\<close>: the guard and the cleanup pass. Velocities are set on the physics
  bodies, shooting is \<open>shootAt\<close>, and the texts are display only.
\<close>

definition update :: "scene \<Rightarrow> scene" where
  "update s = (if \<not> gameStarted s \<or> isGameOver s then s else cleanupObjects s)"

section \<open>spawnWave, spawnHeart and their timer callbacks\<close>

text \<open>The random draws that a timer callback makes, supplied by the caller.\<close>

record draws =
  drawY :: real
  drawChance :: real
  drawDelay :: int

definition spawnDelay :: "int \<Rightarrow> int" where
  "spawnDelay w = max 220 (900 - min (w * 60) 600)"

definition spawnWave :: "scene \<Rightarrow> scene" where
  "spawnWave s =
     (if \<not> gameStarted s \<or> isGameOver s then s
      else let k = nextRun s;
               s1 = s\<lparr>runs := (runs s)(k := \<lparr>count = enemiesPerWave s, spawned = 0\<rparr>),
                      nextRun := Suc k\<rparr>;
               s2 = addTimer (SpawnTick k) (spawnDelay (wave s1)) True s1
           in addTimer (CheckWave k) 500 True s2)"

text \<open>The callback of \<^verbatim>\<open>spawnTimer\<close> for the \<open>k\<close>-th call of spawnWave.\<close>

definition spawnTick :: "nat \<Rightarrow> draws \<Rightarrow> scene \<Rightarrow> scene" where
  "spawnTick k dr s =
     (if isGameOver s \<or> spawned (runs s k) \<ge> count (runs s k)
      then removeTimer (SpawnTick k) s
      else let e = nextId s;
               s1 = createEnemy (- 40) (drawY dr) s;
               s2 = setHasHit e False s1;
               shooterChance = (if wave s2 \<ge> 3 then 45 / 100 else 0 :: real);
               shooter = (drawChance dr < shooterChance);
               s3 = setIsShooter e shooter s2;
               s4 = (if shooter
                     then addTimer (ShootTick e)
                            (drawDelay dr - min ((wave s3 - 3) * 50) 500) True s3
                     else s3)
           in s4\<lparr>runs := (runs s4)(k := (runs s4 k)\<lparr>spawned := spawned (runs s4 k) + 1\<rparr>)\<rparr>)"

text \<open>The callback of \<^verbatim>\<open>shootTimer\<close> of the shooter enemy \<open>e\<close>.\<close>

definition shootTick :: "oid \<Rightarrow> scene \<Rightarrow> scene" where
  "shootTick e s =
     (if \<not> active (objs s e) \<or> isGameOver s then removeTimer (ShootTick e) s
      else createEnemyBullet (xpos (objs s e) + 8) (ypos (objs s e)) s)"

text \<open>The callback of \<^verbatim>\<open>checkWaveTimer\<close> for the \<open>k\<close>-th call of spawnWave.\<close>

definition checkWave :: "nat \<Rightarrow> scene \<Rightarrow> scene" where
  "checkWave k s =
     (if isGameOver s then removeTimer (CheckWave k) s
      else if spawned (runs s k) \<ge> count (runs s k) \<and> countActive (enemies s) s = 0
      then let s1 = removeTimer (CheckWave k) s;
               s2 = s1\<lparr>wave := wave s1 + 1\<rparr>;
               s3 = s2\<lparr>enemiesPerWave := min 12 (enemiesPerWave s2 + 1)\<rparr>
           in addTimer NextWave 700 False s3
      else s)"

text \<open>The callback of the delayed call in \<^verbatim>\<open>checkWaveTimer\<close>.\<close>

definition nextWave :: "scene \<Rightarrow> scene" where
  "nextWave s = (if \<not> isGameOver s then spawnWave s else s)"

definition spawnHeart :: "real \<Rightarrow> scene \<Rightarrow> scene" where
  "spawnHeart py s = createHeart (- 20) py s"

text \<open>The callback of the heart timer of \<^verbatim>\<open>startGame\<close>.\<close>

definition heartTick :: "draws \<Rightarrow> scene \<Rightarrow> scene" where
  "heartTick dr s = (if \<not> gameStarted s \<or> isGameOver s then s else spawnHeart (drawY dr) s)"

section \<open>The scheduler and the events of a run\<close>

definition runCallback :: "callback \<Rightarrow> draws \<Rightarrow> scene \<Rightarrow> scene" where
  "runCallback c dr s =
     (case c of
        ClearInvulnerable \<Rightarrow> clearInvulnerable s
      | SpawnTick k \<Rightarrow> spawnTick k dr s
      | CheckWave k \<Rightarrow> checkWave k s
      | NextWave \<Rightarrow> nextWave s
      | ShootTick e \<Rightarrow> shootTick e s
      | HeartTick \<Rightarrow> heartTick dr s)"

text \<open>
  The engine's clock: time passes for every registered timer (\<open>elapse\<close>), and a timer
  whose delay has elapsed may fire (\<open>fire\<close>): a repeating timer is re-armed with the
  remainder, a one-shot timer is dropped, and the callback runs. A timer never fires
  before its delay has elapsed.
\<close>

definition elapse :: "nat \<Rightarrow> scene \<Rightarrow> scene" where
  "elapse dt s = s\<lparr>timers := map (\<lambda>t. t\<lparr>elapsed := elapsed t + int dt\<rparr>) (timers s)\<rparr>"

definition fire :: "nat \<Rightarrow> draws \<Rightarrow> scene \<Rightarrow> scene" where
  "fire n dr s =
     (if n < length (timers s) \<and> delay (timers s ! n) \<le> elapsed (timers s ! n)
      then let t = timers s ! n;
               s1 = (if loop t
                     then s\<lparr>timers := (timers s)[n := t\<lparr>elapsed := elapsed t - delay t\<rparr>]\<rparr>
                     else s\<lparr>timers := take n (timers s) @ drop (Suc n) (timers s)\<rparr>)
           in runCallback (cb t) dr s1
      else s)"

text \<open>The physics engine moves an object.\<close>

definition moveTo :: "oid \<Rightarrow> real \<Rightarrow> real \<Rightarrow> scene \<Rightarrow> scene" where
  "moveTo i px py s = s\<lparr>objs := (objs s)(i := (objs s i)\<lparr>xpos := px, ypos := py\<rparr>)\<rparr>"

text \<open>
  What the engine can do to a started scene: call an overlap callback, run a frame
  (\<open>Update\<close>), deliver a click or key press (\<open>Shoot\<close>), move a body, let time pass,
  fire a timer.
\<close>

datatype event =
    BulletEnemy "oid option" "oid option"
  | BulletEnemyBullet "oid option" "oid option"
  | EnemyBulletWorm "oid option"
  | EnemyWorm "oid option"
  | BulletHeart "oid option" "oid option"
  | Update
  | Shoot
  | Move oid real real
  | Elapse nat
  | Fire nat draws

fun step :: "event \<Rightarrow> scene \<Rightarrow> scene" where
  "step (BulletEnemy b e) s = bulletEnemy b e s"
| "step (BulletEnemyBullet pb eb) s = bulletEnemyBullet pb eb s"
| "step (EnemyBulletWorm eb) s = enemyBulletWorm eb s"
| "step (EnemyWorm e) s = enemyWorm e s"
| "step (BulletHeart pb h) s = bulletHeart pb h s"
| "step Update s = update s"
| "step Shoot s = shootAt s"
| "step (Move i px py) s = moveTo i px py s"
| "step (Elapse dt) s = elapse dt s"
| "step (Fire n dr) s = fire n dr s"

fun run :: "event list \<Rightarrow> scene \<Rightarrow> scene" where
  "run [] s = s"
| "run (e # es) s = run es (step e s)"

section \<open>create() and startGame()\<close>

text \<open>
  The scene after the constructor, the field initialisers and \<^verbatim>\<open>create()\<close>: the worm
  is the only game object (at \<^verbatim>\<open>Math.round(900 * 0.5)\<close>, \<^verbatim>\<open>Math.round(505 * 0.78)\<close>),
  the four groups are empty and no timer is registered.
\<close>

definition created :: scene where
  "created = \<lparr>objs = (\<lambda>_. newObj 0 0)(0 := newObj 450 394),
              nextId = 1, worm = 0,
              enemies = [], playerBullets = [], enemyBullets = [], hearts = [],
              gameStarted = False, isGameOver = False, invulnerable = False,
              score = 0, health = 100, maxHealth = 100, lives = 3,
              wave = 1, enemiesPerWave = 4,
              timers = [], runs = (\<lambda>_. \<lparr>count = 0, spawned = 0\<rparr>), nextRun = 0,
              warnings = []\<rparr>"

text \<open>\<^verbatim>\<open>startGame\<close>; \<open>d\<close> is the draw \<^verbatim>\<open>Phaser.Math.Between(7000, 10000)\<close>.\<close>

definition startGame :: "int \<Rightarrow> scene \<Rightarrow> scene" where
  "startGame d s =
     (let s1 = s\<lparr>gameStarted := True, isGameOver := False, invulnerable := False,
                 score := 0, health := maxHealth s, lives := 3, wave := 1,
                 enemiesPerWave := 4\<rparr>;
          s2 = clearGroup (enemies s1) s1;
          s3 = clearGroup (playerBullets s2) s2;
          s4 = clearGroup (enemyBullets s3) s3;
          s5 = clearGroup (hearts s4) s4;
          s6 = addTimer HeartTick d True s5
      in spawnWave s6)"

section \<open>Sequences used in the statements\<close>

text \<open>A sequence of heal calls.\<close>

fun heals :: "int list \<Rightarrow> scene \<Rightarrow> scene" where
  "heals [] s = s"
| "heals (a # as) s = heals as (heal a s)"

section \<open>Concrete scenes\<close>

text \<open>A started game in which the health gauge reads 90.\<close>

definition hurt :: scene where
  "hurt = (startGame 7000 created)\<lparr>health := 90\<rparr>"

text \<open>
  A started game with two enemies (1 and 2), one player bullet (3), one enemy bullet (4)
  and one heart (5), all on screen.
\<close>

definition battle :: scene where
  "battle = createHeart 300 200 (createEnemyBullet 200 300 (createPlayerBullet 450 300
              (createEnemy 120 150 (createEnemy 100 200 (startGame 7000 created)))))"

section \<open>Invariants of a started scene\<close>

text \<open>
  The worm is created by \<^verbatim>\<open>this.physics.add.sprite\<close> and is never added to a group;
  it exists (its identity is below \<open>nextId\<close>) and is active.
\<close>

definition wormSafe :: "scene \<Rightarrow> bool" where
  "wormSafe s \<longleftrightarrow>
     worm s \<notin> set (enemies s) \<and> worm s \<notin> set (playerBullets s)
     \<and> worm s \<notin> set (enemyBullets s) \<and> worm s \<notin> set (hearts s)
     \<and> worm s < nextId s \<and> active (objs s (worm s))"

section \<open>Counting along a run\<close>

text \<open>The number of steps of a run at which the game goes from running to game over.\<close>

fun gameOverTransitions :: "event list \<Rightarrow> scene \<Rightarrow> nat" where
  "gameOverTransitions [] s = 0"
| "gameOverTransitions (e # es) s =
     (if \<not> isGameOver s \<and> isGameOver (step e s) then 1 else 0)
     + gameOverTransitions es (step e s)"

text \<open>The scene \<open>battle\<close> with one life left.\<close>

definition lastLife :: scene where
  "lastLife = battle\<lparr>lives := 1\<rparr>"

text \<open>
  Once the game is over the groups that \<open>endGame\<close> clears stay empty (\<open>shootAt\<close> and
  the timer callbacks that create bullets and hearts test \<open>isGameOver\<close>).
\<close>

definition overEmpty :: "scene \<Rightarrow> bool" where
  "overEmpty s \<longleftrightarrow>
     (isGameOver s \<longrightarrow> playerBullets s = [] \<and> enemyBullets s = [] \<and> hearts s = [])"

text \<open>
  An object is a child of at most one group, at one place of its array, and every child
  exists (\<^verbatim>\<open>group.create\<close> makes a new object each time).
\<close>

definition groupsOk :: "scene \<Rightarrow> bool" where
  "groupsOk s \<longleftrightarrow>
     distinct (playerBullets s @ enemyBullets s @ enemies s @ hearts s)
     \<and> (\<forall>i \<in> set (playerBullets s @ enemyBullets s @ enemies s @ hearts s). i < nextId s)"

section \<open>Removal\<close>

text \<open>An object has been removed: it is inactive and no group holds it.\<close>

definition removed :: "scene \<Rightarrow> oid \<Rightarrow> bool" where
  "removed s i \<longleftrightarrow>
     \<not> active (objs s i) \<and> i \<notin> set (enemies s) \<and> i \<notin> set (playerBullets s)
     \<and> i \<notin> set (enemyBullets s) \<and> i \<notin> set (hearts s)"

text \<open>The cleanup pass over group \<open>g\<close> removes the object \<open>x\<close> when it visits it.\<close>

definition due :: "pool \<Rightarrow> scene \<Rightarrow> oid \<Rightarrow> bool" where
  "due g s x \<longleftrightarrow> active (objs s x) \<and> offScreen g (objs s x)"

text \<open>
  A started game with four objects far outside the 900 x 505 area: player bullet 1 below
  the bottom edge, enemy bullet 2 above the top edge, enemy 3 and heart 4 beyond the left
  edge.
\<close>

definition strays :: scene where
  "strays = createHeart (- 500) 200 (createEnemy (- 500) 200
              (createEnemyBullet 450 (- 500) (createPlayerBullet 450 1000
                (startGame 7000 created))))"

text \<open>
  A started game with four objects beyond the edges that \<open>cleanupObjects\<close> tests:
  player bullet 1 above the top, enemy bullet 2 below the bottom, enemy 3 and heart 4
  beyond the right edge.
\<close>

definition leavers :: scene where
  "leavers = createHeart 1000 200 (createEnemy 1100 200
              (createEnemyBullet 450 800 (createPlayerBullet 450 (- 100)
                (startGame 7000 created))))"

text \<open>
  A started game with three player bullets (1, 2 and 3) above the top edge, and one with
  a player bullet on screen (1) followed by one above the top edge (2).
\<close>

definition queue :: scene where
  "queue = createPlayerBullet 500 (- 100) (createPlayerBullet 450 (- 100)
             (createPlayerBullet 400 (- 100) (startGame 7000 created)))"

definition pair :: scene where
  "pair = createPlayerBullet 450 (- 100) (createPlayerBullet 400 300
            (startGame 7000 created))"

section \<open>Time along a run\<close>

text \<open>The milliseconds that pass during a run.\<close>

fun elapsedTime :: "event list \<Rightarrow> nat" where
  "elapsedTime [] = 0"
| "elapsedTime (Elapse dt # es) = dt + elapsedTime es"
| "elapsedTime (e # es) = elapsedTime es"

text \<open>
  Every registered timer with callback \<open>c\<close> has more than \<open>T\<close> milliseconds to go.
\<close>

definition notDue :: "callback \<Rightarrow> int \<Rightarrow> scene \<Rightarrow> bool" where
  "notDue c T s \<longleftrightarrow> (\<forall>t \<in> set (timers s). cb t = c \<longrightarrow> elapsed t + T < delay t)"

text \<open>
  From \<open>s\<close> to \<open>s'\<close> the only new timers with callback \<open>c\<close> are fresh one-shot timers
  with a delay of 700 ms.
\<close>

definition addsOnly700 :: "callback \<Rightarrow> scene \<Rightarrow> scene \<Rightarrow> bool" where
  "addsOnly700 c s s' \<longleftrightarrow>
     (\<forall>t \<in> set (timers s'). cb t = c \<longrightarrow> t \<in> set (timers s) \<or> (elapsed t = 0 \<and> delay t = 700 \<and> \<not> loop t))"

text \<open>Every registered timer with callback \<open>c\<close> is a one-shot timer.\<close>

definition oneShot :: "callback \<Rightarrow> scene \<Rightarrow> bool" where
  "oneShot c s \<longleftrightarrow> (\<forall>t \<in> set (timers s). cb t = c \<longrightarrow> \<not> loop t)"

text \<open>The number of registered timers whose callback satisfies \<open>p\<close>.\<close>

definition pending :: "(callback \<Rightarrow> bool) \<Rightarrow> scene \<Rightarrow> nat" where
  "pending p s = length (filter (\<lambda>t. p (cb t)) (timers s))"

text \<open>
  While the player is invulnerable exactly the one-shot timer of that life loss is
  registered to end it, and otherwise none is.
\<close>

definition invulnTimer :: "scene \<Rightarrow> bool" where
  "invulnTimer s \<longleftrightarrow>
     pending (\<lambda>c. c = ClearInvulnerable) s \<le> (if invulnerable s then 1 else 0)
     \<and> oneShot ClearInvulnerable s"

text \<open>A predicate on callbacks that no shoot timer satisfies.\<close>

definition noShoot :: "(callback \<Rightarrow> bool) \<Rightarrow> bool" where
  "noShoot p \<longleftrightarrow> (\<forall>i. \<not> p (ShootTick i))"

text \<open>
  The started game at the moment its first wave is over: the four enemies of the quota
  have been spawned and none is left.
\<close>

definition waveCleared :: scene where
  "waveCleared = (startGame 7000 created)
     \<lparr>runs := (\<lambda>_. \<lparr>count = 0, spawned = 0\<rparr>)(0 := \<lparr>count = 4, spawned = 4\<rparr>)\<rparr>"

text \<open>
  The timers of the wave cycle: the check timer of the wave being played, or the timer
  that starts the next one. At most one of them is registered at any time, and the
  next-wave timer is a one-shot timer.
\<close>

fun isWaveTimer :: "callback \<Rightarrow> bool" where
  "isWaveTimer NextWave = True"
| "isWaveTimer (CheckWave k) = True"
| "isWaveTimer c = False"

definition wavePhase :: "scene \<Rightarrow> bool" where
  "wavePhase s \<longleftrightarrow> pending isWaveTimer s \<le> 1 \<and> oneShot NextWave s"

section \<open>Frame lemmas: what each operation leaves unchanged\<close>

lemma destroy_fields [simp]:
  "objs (destroy i s) =
     (objs s)(i := (objs s i)\<lparr>active := False, hasHit := False, isShooter := False\<rparr>)"
  "enemies (destroy i s) = removeAll i (enemies s)"
  "playerBullets (destroy i s) = removeAll i (playerBullets s)"
  "enemyBullets (destroy i s) = removeAll i (enemyBullets s)"
  "hearts (destroy i s) = removeAll i (hearts s)"
  "timers (destroy i s) = filter (\<lambda>t. cb t \<noteq> ShootTick i) (timers s)"
  "nextId (destroy i s) = nextId s"
  "worm (destroy i s) = worm s"
  "gameStarted (destroy i s) = gameStarted s"
  "isGameOver (destroy i s) = isGameOver s"
  "invulnerable (destroy i s) = invulnerable s"
  "score (destroy i s) = score s"
  "health (destroy i s) = health s"
  "maxHealth (destroy i s) = maxHealth s"
  "lives (destroy i s) = lives s"
  "wave (destroy i s) = wave s"
  "enemiesPerWave (destroy i s) = enemiesPerWave s"
  "runs (destroy i s) = runs s"
  "nextRun (destroy i s) = nextRun s"
  "warnings (destroy i s) = warnings s"
  by (simp_all add: destroy_def)

lemma clearGroup_fields [simp]:
  "nextId (clearGroup g s) = nextId s"
  "worm (clearGroup g s) = worm s"
  "gameStarted (clearGroup g s) = gameStarted s"
  "isGameOver (clearGroup g s) = isGameOver s"
  "invulnerable (clearGroup g s) = invulnerable s"
  "score (clearGroup g s) = score s"
  "health (clearGroup g s) = health s"
  "maxHealth (clearGroup g s) = maxHealth s"
  "lives (clearGroup g s) = lives s"
  "wave (clearGroup g s) = wave s"
  "enemiesPerWave (clearGroup g s) = enemiesPerWave s"
  "runs (clearGroup g s) = runs s"
  "nextRun (clearGroup g s) = nextRun s"
  "warnings (clearGroup g s) = warnings s"
  unfolding clearGroup_def by (induction g arbitrary: s; simp)+

lemma clearGroup_objs:
  "objs (clearGroup g s) i =
     (if i \<in> set g then (objs s i)\<lparr>active := False, hasHit := False, isShooter := False\<rparr>
      else objs s i)"
  unfolding clearGroup_def by (induction g arbitrary: s) auto

lemma clearGroup_pools [simp]:
  "enemies (clearGroup g s) = filter (\<lambda>i. i \<notin> set g) (enemies s)"
  "playerBullets (clearGroup g s) = filter (\<lambda>i. i \<notin> set g) (playerBullets s)"
  "enemyBullets (clearGroup g s) = filter (\<lambda>i. i \<notin> set g) (enemyBullets s)"
  "hearts (clearGroup g s) = filter (\<lambda>i. i \<notin> set g) (hearts s)"
  unfolding clearGroup_def
  by (induction g arbitrary: s; simp add: removeAll_filter_not_eq conj_commute; metis)+

lemma clearGroup_timers [simp]:
  "timers (clearGroup g s) = filter (\<lambda>t. \<forall>i\<in>set g. cb t \<noteq> ShootTick i) (timers s)"
  unfolding clearGroup_def
  by (induction g arbitrary: s) (auto intro: filter_cong)

lemma safeDestroy_None [simp]: "safeDestroy None s = s"
  by (simp add: safeDestroy_def safeDestroyWith_def)

lemma safeDestroy_Some:
  "safeDestroy (Some i) s =
     (if i = worm s then warn ''safeDestroy blocked: attempted to destroy player worm.'' s
      else if \<not> active (objs s i) then s else destroy i s)"
  by (simp add: safeDestroy_def safeDestroyWith_def)

lemma warn_fields [simp]:
  "objs (warn m s) = objs s"
  "enemies (warn m s) = enemies s"
  "playerBullets (warn m s) = playerBullets s"
  "enemyBullets (warn m s) = enemyBullets s"
  "hearts (warn m s) = hearts s"
  "timers (warn m s) = timers s"
  "nextId (warn m s) = nextId s"
  "worm (warn m s) = worm s"
  "gameStarted (warn m s) = gameStarted s"
  "isGameOver (warn m s) = isGameOver s"
  "invulnerable (warn m s) = invulnerable s"
  "score (warn m s) = score s"
  "health (warn m s) = health s"
  "maxHealth (warn m s) = maxHealth s"
  "lives (warn m s) = lives s"
  "wave (warn m s) = wave s"
  "enemiesPerWave (warn m s) = enemiesPerWave s"
  "runs (warn m s) = runs s"
  "nextRun (warn m s) = nextRun s"
  "warnings (warn m s) = warnings s @ [m]"
  by (simp_all add: warn_def)

lemma safeDestroy_fields [simp]:
  "nextId (safeDestroy r s) = nextId s"
  "worm (safeDestroy r s) = worm s"
  "gameStarted (safeDestroy r s) = gameStarted s"
  "isGameOver (safeDestroy r s) = isGameOver s"
  "invulnerable (safeDestroy r s) = invulnerable s"
  "score (safeDestroy r s) = score s"
  "health (safeDestroy r s) = health s"
  "maxHealth (safeDestroy r s) = maxHealth s"
  "lives (safeDestroy r s) = lives s"
  "wave (safeDestroy r s) = wave s"
  "enemiesPerWave (safeDestroy r s) = enemiesPerWave s"
  "runs (safeDestroy r s) = runs s"
  "nextRun (safeDestroy r s) = nextRun s"
  by (cases r; simp add: safeDestroy_Some)+

lemma addTimer_fields [simp]:
  "objs (addTimer c d l s) = objs s"
  "enemies (addTimer c d l s) = enemies s"
  "playerBullets (addTimer c d l s) = playerBullets s"
  "enemyBullets (addTimer c d l s) = enemyBullets s"
  "hearts (addTimer c d l s) = hearts s"
  "timers (addTimer c d l s) = timers s @ [\<lparr>cb = c, delay = d, loop = l, elapsed = 0\<rparr>]"
  "nextId (addTimer c d l s) = nextId s"
  "worm (addTimer c d l s) = worm s"
  "gameStarted (addTimer c d l s) = gameStarted s"
  "isGameOver (addTimer c d l s) = isGameOver s"
  "invulnerable (addTimer c d l s) = invulnerable s"
  "score (addTimer c d l s) = score s"
  "health (addTimer c d l s) = health s"
  "maxHealth (addTimer c d l s) = maxHealth s"
  "lives (addTimer c d l s) = lives s"
  "wave (addTimer c d l s) = wave s"
  "enemiesPerWave (addTimer c d l s) = enemiesPerWave s"
  "runs (addTimer c d l s) = runs s"
  "nextRun (addTimer c d l s) = nextRun s"
  "warnings (addTimer c d l s) = warnings s"
  by (simp_all add: addTimer_def)

lemma removeTimer_fields [simp]:
  "objs (removeTimer c s) = objs s"
  "enemies (removeTimer c s) = enemies s"
  "playerBullets (removeTimer c s) = playerBullets s"
  "enemyBullets (removeTimer c s) = enemyBullets s"
  "hearts (removeTimer c s) = hearts s"
  "timers (removeTimer c s) = filter (\<lambda>t. cb t \<noteq> c) (timers s)"
  "nextId (removeTimer c s) = nextId s"
  "worm (removeTimer c s) = worm s"
  "gameStarted (removeTimer c s) = gameStarted s"
  "isGameOver (removeTimer c s) = isGameOver s"
  "invulnerable (removeTimer c s) = invulnerable s"
  "score (removeTimer c s) = score s"
  "health (removeTimer c s) = health s"
  "maxHealth (removeTimer c s) = maxHealth s"
  "lives (removeTimer c s) = lives s"
  "wave (removeTimer c s) = wave s"
  "enemiesPerWave (removeTimer c s) = enemiesPerWave s"
  "runs (removeTimer c s) = runs s"
  "nextRun (removeTimer c s) = nextRun s"
  "warnings (removeTimer c s) = warnings s"
  by (simp_all add: removeTimer_def)

lemma setHasHit_fields [simp]:
  "objs (setHasHit i v s) = (objs s)(i := (objs s i)\<lparr>hasHit := v\<rparr>)"
  "enemies (setHasHit i v s) = enemies s"
  "playerBullets (setHasHit i v s) = playerBullets s"
  "enemyBullets (setHasHit i v s) = enemyBullets s"
  "hearts (setHasHit i v s) = hearts s"
  "timers (setHasHit i v s) = timers s"
  "nextId (setHasHit i v s) = nextId s"
  "worm (setHasHit i v s) = worm s"
  "gameStarted (setHasHit i v s) = gameStarted s"
  "isGameOver (setHasHit i v s) = isGameOver s"
  "invulnerable (setHasHit i v s) = invulnerable s"
  "score (setHasHit i v s) = score s"
  "health (setHasHit i v s) = health s"
  "maxHealth (setHasHit i v s) = maxHealth s"
  "lives (setHasHit i v s) = lives s"
  "wave (setHasHit i v s) = wave s"
  "enemiesPerWave (setHasHit i v s) = enemiesPerWave s"
  "runs (setHasHit i v s) = runs s"
  "nextRun (setHasHit i v s) = nextRun s"
  "warnings (setHasHit i v s) = warnings s"
  by (simp_all add: setHasHit_def)

lemma setIsShooter_fields [simp]:
  "objs (setIsShooter i v s) = (objs s)(i := (objs s i)\<lparr>isShooter := v\<rparr>)"
  "enemies (setIsShooter i v s) = enemies s"
  "playerBullets (setIsShooter i v s) = playerBullets s"
  "enemyBullets (setIsShooter i v s) = enemyBullets s"
  "hearts (setIsShooter i v s) = hearts s"
  "timers (setIsShooter i v s) = timers s"
  "nextId (setIsShooter i v s) = nextId s"
  "worm (setIsShooter i v s) = worm s"
  "gameStarted (setIsShooter i v s) = gameStarted s"
  "isGameOver (setIsShooter i v s) = isGameOver s"
  "invulnerable (setIsShooter i v s) = invulnerable s"
  "score (setIsShooter i v s) = score s"
  "health (setIsShooter i v s) = health s"
  "maxHealth (setIsShooter i v s) = maxHealth s"
  "lives (setIsShooter i v s) = lives s"
  "wave (setIsShooter i v s) = wave s"
  "enemiesPerWave (setIsShooter i v s) = enemiesPerWave s"
  "runs (setIsShooter i v s) = runs s"
  "nextRun (setIsShooter i v s) = nextRun s"
  "warnings (setIsShooter i v s) = warnings s"
  by (simp_all add: setIsShooter_def)

lemma endGame_fields [simp]:
  "nextId (endGame s) = nextId s"
  "worm (endGame s) = worm s"
  "invulnerable (endGame s) = invulnerable s"
  "score (endGame s) = score s"
  "health (endGame s) = health s"
  "maxHealth (endGame s) = maxHealth s"
  "lives (endGame s) = lives s"
  "wave (endGame s) = wave s"
  "enemiesPerWave (endGame s) = enemiesPerWave s"
  "runs (endGame s) = runs s"
  "nextRun (endGame s) = nextRun s"
  "warnings (endGame s) = warnings s"
  "isGameOver (endGame s) = True"
  by (simp_all add: endGame_def Let_def)

lemma loseLife_fields [simp]:
  "nextId (loseLife s) = nextId s"
  "worm (loseLife s) = worm s"
  "score (loseLife s) = score s"
  "health (loseLife s) = health s"
  "maxHealth (loseLife s) = maxHealth s"
  "wave (loseLife s) = wave s"
  "enemiesPerWave (loseLife s) = enemiesPerWave s"
  "runs (loseLife s) = runs s"
  "nextRun (loseLife s) = nextRun s"
  "warnings (loseLife s) = warnings s"
  by (simp_all add: loseLife_def Let_def)

lemma createEnemy_fields [simp]:
  "objs (createEnemy px py s) = (objs s)(nextId s := newObj px py)"
  "nextId (createEnemy px py s) = Suc (nextId s)"
  "enemies (createEnemy px py s) = enemies s @ [nextId s]"
  "playerBullets (createEnemy px py s) = playerBullets s"
  "enemyBullets (createEnemy px py s) = enemyBullets s"
  "hearts (createEnemy px py s) = hearts s"
  "timers (createEnemy px py s) = timers s"
  "worm (createEnemy px py s) = worm s"
  "gameStarted (createEnemy px py s) = gameStarted s"
  "isGameOver (createEnemy px py s) = isGameOver s"
  "invulnerable (createEnemy px py s) = invulnerable s"
  "score (createEnemy px py s) = score s"
  "health (createEnemy px py s) = health s"
  "maxHealth (createEnemy px py s) = maxHealth s"
  "lives (createEnemy px py s) = lives s"
  "wave (createEnemy px py s) = wave s"
  "enemiesPerWave (createEnemy px py s) = enemiesPerWave s"
  "runs (createEnemy px py s) = runs s"
  "nextRun (createEnemy px py s) = nextRun s"
  "warnings (createEnemy px py s) = warnings s"
  by (simp_all add: createEnemy_def)

lemma createPlayerBullet_fields [simp]:
  "objs (createPlayerBullet px py s) = (objs s)(nextId s := newObj px py)"
  "nextId (createPlayerBullet px py s) = Suc (nextId s)"
  "playerBullets (createPlayerBullet px py s) = playerBullets s @ [nextId s]"
  "enemies (createPlayerBullet px py s) = enemies s"
  "enemyBullets (createPlayerBullet px py s) = enemyBullets s"
  "hearts (createPlayerBullet px py s) = hearts s"
  "timers (createPlayerBullet px py s) = timers s"
  "worm (createPlayerBullet px py s) = worm s"
  "gameStarted (createPlayerBullet px py s) = gameStarted s"
  "isGameOver (createPlayerBullet px py s) = isGameOver s"
  "invulnerable (createPlayerBullet px py s) = invulnerable s"
  "score (createPlayerBullet px py s) = score s"
  "health (createPlayerBullet px py s) = health s"
  "maxHealth (createPlayerBullet px py s) = maxHealth s"
  "lives (createPlayerBullet px py s) = lives s"
  "wave (createPlayerBullet px py s) = wave s"
  "enemiesPerWave (createPlayerBullet px py s) = enemiesPerWave s"
  "runs (createPlayerBullet px py s) = runs s"
  "nextRun (createPlayerBullet px py s) = nextRun s"
  "warnings (createPlayerBullet px py s) = warnings s"
  by (simp_all add: createPlayerBullet_def)

lemma createEnemyBullet_fields [simp]:
  "objs (createEnemyBullet px py s) = (objs s)(nextId s := newObj px py)"
  "nextId (createEnemyBullet px py s) = Suc (nextId s)"
  "enemyBullets (createEnemyBullet px py s) = enemyBullets s @ [nextId s]"
  "enemies (createEnemyBullet px py s) = enemies s"
  "playerBullets (createEnemyBullet px py s) = playerBullets s"
  "hearts (createEnemyBullet px py s) = hearts s"
  "timers (createEnemyBullet px py s) = timers s"
  "worm (createEnemyBullet px py s) = worm s"
  "gameStarted (createEnemyBullet px py s) = gameStarted s"
  "isGameOver (createEnemyBullet px py s) = isGameOver s"
  "invulnerable (createEnemyBullet px py s) = invulnerable s"
  "score (createEnemyBullet px py s) = score s"
  "health (createEnemyBullet px py s) = health s"
  "maxHealth (createEnemyBullet px py s) = maxHealth s"
  "lives (createEnemyBullet px py s) = lives s"
  "wave (createEnemyBullet px py s) = wave s"
  "enemiesPerWave (createEnemyBullet px py s) = enemiesPerWave s"
  "runs (createEnemyBullet px py s) = runs s"
  "nextRun (createEnemyBullet px py s) = nextRun s"
  "warnings (createEnemyBullet px py s) = warnings s"
  by (simp_all add: createEnemyBullet_def)

lemma createHeart_fields [simp]:
  "objs (createHeart px py s) = (objs s)(nextId s := newObj px py)"
  "nextId (createHeart px py s) = Suc (nextId s)"
  "hearts (createHeart px py s) = hearts s @ [nextId s]"
  "enemies (createHeart px py s) = enemies s"
  "playerBullets (createHeart px py s) = playerBullets s"
  "enemyBullets (createHeart px py s) = enemyBullets s"
  "timers (createHeart px py s) = timers s"
  "worm (createHeart px py s) = worm s"
  "gameStarted (createHeart px py s) = gameStarted s"
  "isGameOver (createHeart px py s) = isGameOver s"
  "invulnerable (createHeart px py s) = invulnerable s"
  "score (createHeart px py s) = score s"
  "health (createHeart px py s) = health s"
  "maxHealth (createHeart px py s) = maxHealth s"
  "lives (createHeart px py s) = lives s"
  "wave (createHeart px py s) = wave s"
  "enemiesPerWave (createHeart px py s) = enemiesPerWave s"
  "runs (createHeart px py s) = runs s"
  "nextRun (createHeart px py s) = nextRun s"
  "warnings (createHeart px py s) = warnings s"
  by (simp_all add: createHeart_def)

lemma moveTo_fields [simp]:
  "objs (moveTo i px py s) = (objs s)(i := (objs s i)\<lparr>xpos := px, ypos := py\<rparr>)"
  "enemies (moveTo i px py s) = enemies s"
  "playerBullets (moveTo i px py s) = playerBullets s"
  "enemyBullets (moveTo i px py s) = enemyBullets s"
  "hearts (moveTo i px py s) = hearts s"
  "timers (moveTo i px py s) = timers s"
  "nextId (moveTo i px py s) = nextId s"
  "worm (moveTo i px py s) = worm s"
  "gameStarted (moveTo i px py s) = gameStarted s"
  "isGameOver (moveTo i px py s) = isGameOver s"
  "invulnerable (moveTo i px py s) = invulnerable s"
  "score (moveTo i px py s) = score s"
  "health (moveTo i px py s) = health s"
  "maxHealth (moveTo i px py s) = maxHealth s"
  "lives (moveTo i px py s) = lives s"
  "wave (moveTo i px py s) = wave s"
  "enemiesPerWave (moveTo i px py s) = enemiesPerWave s"
  "runs (moveTo i px py s) = runs s"
  "nextRun (moveTo i px py s) = nextRun s"
  "warnings (moveTo i px py s) = warnings s"
  by (simp_all add: moveTo_def)

lemma elapse_fields [simp]:
  "timers (elapse dt s) = map (\<lambda>t. t\<lparr>elapsed := elapsed t + int dt\<rparr>) (timers s)"
  "objs (elapse dt s) = objs s"
  "enemies (elapse dt s) = enemies s"
  "playerBullets (elapse dt s) = playerBullets s"
  "enemyBullets (elapse dt s) = enemyBullets s"
  "hearts (elapse dt s) = hearts s"
  "nextId (elapse dt s) = nextId s"
  "worm (elapse dt s) = worm s"
  "gameStarted (elapse dt s) = gameStarted s"
  "isGameOver (elapse dt s) = isGameOver s"
  "invulnerable (elapse dt s) = invulnerable s"
  "score (elapse dt s) = score s"
  "health (elapse dt s) = health s"
  "maxHealth (elapse dt s) = maxHealth s"
  "lives (elapse dt s) = lives s"
  "wave (elapse dt s) = wave s"
  "enemiesPerWave (elapse dt s) = enemiesPerWave s"
  "runs (elapse dt s) = runs s"
  "nextRun (elapse dt s) = nextRun s"
  "warnings (elapse dt s) = warnings s"
  by (simp_all add: elapse_def)

lemma clearInvulnerable_fields [simp]:
  "invulnerable (clearInvulnerable s) = False"
  "objs (clearInvulnerable s) = objs s"
  "enemies (clearInvulnerable s) = enemies s"
  "playerBullets (clearInvulnerable s) = playerBullets s"
  "enemyBullets (clearInvulnerable s) = enemyBullets s"
  "hearts (clearInvulnerable s) = hearts s"
  "timers (clearInvulnerable s) = timers s"
  "nextId (clearInvulnerable s) = nextId s"
  "worm (clearInvulnerable s) = worm s"
  "gameStarted (clearInvulnerable s) = gameStarted s"
  "isGameOver (clearInvulnerable s) = isGameOver s"
  "score (clearInvulnerable s) = score s"
  "health (clearInvulnerable s) = health s"
  "maxHealth (clearInvulnerable s) = maxHealth s"
  "lives (clearInvulnerable s) = lives s"
  "wave (clearInvulnerable s) = wave s"
  "enemiesPerWave (clearInvulnerable s) = enemiesPerWave s"
  "runs (clearInvulnerable s) = runs s"
  "nextRun (clearInvulnerable s) = nextRun s"
  "warnings (clearInvulnerable s) = warnings s"
  by (simp_all add: clearInvulnerable_def)

lemma addScore_fields [simp]:
  "score (addScore n s) = score s + n"
  "objs (addScore n s) = objs s"
  "enemies (addScore n s) = enemies s"
  "playerBullets (addScore n s) = playerBullets s"
  "enemyBullets (addScore n s) = enemyBullets s"
  "hearts (addScore n s) = hearts s"
  "timers (addScore n s) = timers s"
  "nextId (addScore n s) = nextId s"
  "worm (addScore n s) = worm s"
  "gameStarted (addScore n s) = gameStarted s"
  "isGameOver (addScore n s) = isGameOver s"
  "invulnerable (addScore n s) = invulnerable s"
  "health (addScore n s) = health s"
  "maxHealth (addScore n s) = maxHealth s"
  "lives (addScore n s) = lives s"
  "wave (addScore n s) = wave s"
  "enemiesPerWave (addScore n s) = enemiesPerWave s"
  "runs (addScore n s) = runs s"
  "nextRun (addScore n s) = nextRun s"
  "warnings (addScore n s) = warnings s"
  by (simp_all add: addScore_def)

lemma heal_fields [simp]:
  "objs (heal a s) = objs s"
  "enemies (heal a s) = enemies s"
  "playerBullets (heal a s) = playerBullets s"
  "enemyBullets (heal a s) = enemyBullets s"
  "hearts (heal a s) = hearts s"
  "timers (heal a s) = timers s"
  "nextId (heal a s) = nextId s"
  "worm (heal a s) = worm s"
  "gameStarted (heal a s) = gameStarted s"
  "isGameOver (heal a s) = isGameOver s"
  "invulnerable (heal a s) = invulnerable s"
  "score (heal a s) = score s"
  "maxHealth (heal a s) = maxHealth s"
  "lives (heal a s) = lives s"
  "wave (heal a s) = wave s"
  "enemiesPerWave (heal a s) = enemiesPerWave s"
  "runs (heal a s) = runs s"
  "nextRun (heal a s) = nextRun s"
  "warnings (heal a s) = warnings s"
  by (simp_all add: heal_def)

lemma cleanChild_fields [simp]:
  "nextId (cleanChild g x s) = nextId s"
  "worm (cleanChild g x s) = worm s"
  "gameStarted (cleanChild g x s) = gameStarted s"
  "isGameOver (cleanChild g x s) = isGameOver s"
  "invulnerable (cleanChild g x s) = invulnerable s"
  "score (cleanChild g x s) = score s"
  "health (cleanChild g x s) = health s"
  "maxHealth (cleanChild g x s) = maxHealth s"
  "lives (cleanChild g x s) = lives s"
  "wave (cleanChild g x s) = wave s"
  "enemiesPerWave (cleanChild g x s) = enemiesPerWave s"
  "runs (cleanChild g x s) = runs s"
  "nextRun (cleanChild g x s) = nextRun s"
  by (simp_all add: cleanChild_def)

text \<open>One turn of the loop, and its end.\<close>

lemma cleanLoop_step:
  "i < length (children g s) \<Longrightarrow>
   cleanLoop g i s = cleanLoop g (Suc i) (cleanChild g (children g s ! i) s)"
  by (subst cleanLoop.simps) simp

lemma cleanLoop_done: "\<not> i < length (children g s) \<Longrightarrow> cleanLoop g i s = s"
  by (subst cleanLoop.simps) simp

text \<open>What every turn of the loop body keeps, the loop keeps.\<close>

lemma cleanLoop_invariant:
  assumes "\<And>x t. Q t \<Longrightarrow> x \<in> set (children g t) \<Longrightarrow> Q (cleanChild g x t)"
    and "Q s"
  shows "Q (cleanLoop g i s)"
  using assms
proof (induction g i s rule: cleanLoop.induct)
  case (1 g i s)
  show ?case
  proof (cases "i < length (children g s)")
    case True
    have "Q (cleanChild g (children g s ! i) s)"
      using "1.prems" True by simp
    then have "Q (cleanLoop g (Suc i) (cleanChild g (children g s ! i) s))"
      using "1.IH" [OF True] "1.prems"(1) by blast
    then show ?thesis using True by (simp add: cleanLoop_step)
  next
    case False
    then show ?thesis using "1.prems"(2) by (simp add: cleanLoop_done)
  qed
qed

lemma cleanLoop_fields [simp]:
  "nextId (cleanLoop g i s) = nextId s"
  "worm (cleanLoop g i s) = worm s"
  "gameStarted (cleanLoop g i s) = gameStarted s"
  "isGameOver (cleanLoop g i s) = isGameOver s"
  "invulnerable (cleanLoop g i s) = invulnerable s"
  "score (cleanLoop g i s) = score s"
  "health (cleanLoop g i s) = health s"
  "maxHealth (cleanLoop g i s) = maxHealth s"
  "lives (cleanLoop g i s) = lives s"
  "wave (cleanLoop g i s) = wave s"
  "enemiesPerWave (cleanLoop g i s) = enemiesPerWave s"
  "runs (cleanLoop g i s) = runs s"
  "nextRun (cleanLoop g i s) = nextRun s"
  by (rule cleanLoop_invariant; simp)+

lemma cleanupObjects_fields [simp]:
  "nextId (cleanupObjects s) = nextId s"
  "worm (cleanupObjects s) = worm s"
  "gameStarted (cleanupObjects s) = gameStarted s"
  "isGameOver (cleanupObjects s) = isGameOver s"
  "invulnerable (cleanupObjects s) = invulnerable s"
  "score (cleanupObjects s) = score s"
  "health (cleanupObjects s) = health s"
  "maxHealth (cleanupObjects s) = maxHealth s"
  "lives (cleanupObjects s) = lives s"
  "wave (cleanupObjects s) = wave s"
  "enemiesPerWave (cleanupObjects s) = enemiesPerWave s"
  "runs (cleanupObjects s) = runs s"
  "nextRun (cleanupObjects s) = nextRun s"
  by (simp_all add: cleanupObjects_def Let_def)

lemma update_fields [simp]:
  "nextId (update s) = nextId s"
  "worm (update s) = worm s"
  "gameStarted (update s) = gameStarted s"
  "isGameOver (update s) = isGameOver s"
  "invulnerable (update s) = invulnerable s"
  "score (update s) = score s"
  "health (update s) = health s"
  "maxHealth (update s) = maxHealth s"
  "lives (update s) = lives s"
  "wave (update s) = wave s"
  "enemiesPerWave (update s) = enemiesPerWave s"
  "runs (update s) = runs s"
  "nextRun (update s) = nextRun s"
  by (simp_all add: update_def)

lemma shootAt_fields [simp]:
  "worm (shootAt s) = worm s"
  "gameStarted (shootAt s) = gameStarted s"
  "isGameOver (shootAt s) = isGameOver s"
  "invulnerable (shootAt s) = invulnerable s"
  "score (shootAt s) = score s"
  "health (shootAt s) = health s"
  "maxHealth (shootAt s) = maxHealth s"
  "lives (shootAt s) = lives s"
  "wave (shootAt s) = wave s"
  "enemiesPerWave (shootAt s) = enemiesPerWave s"
  "runs (shootAt s) = runs s"
  "nextRun (shootAt s) = nextRun s"
  "warnings (shootAt s) = warnings s"
  by (simp_all add: shootAt_def)

lemma spawnWave_fields [simp]:
  "objs (spawnWave s) = objs s"
  "enemies (spawnWave s) = enemies s"
  "playerBullets (spawnWave s) = playerBullets s"
  "enemyBullets (spawnWave s) = enemyBullets s"
  "hearts (spawnWave s) = hearts s"
  "nextId (spawnWave s) = nextId s"
  "worm (spawnWave s) = worm s"
  "gameStarted (spawnWave s) = gameStarted s"
  "isGameOver (spawnWave s) = isGameOver s"
  "invulnerable (spawnWave s) = invulnerable s"
  "score (spawnWave s) = score s"
  "health (spawnWave s) = health s"
  "maxHealth (spawnWave s) = maxHealth s"
  "lives (spawnWave s) = lives s"
  "wave (spawnWave s) = wave s"
  "enemiesPerWave (spawnWave s) = enemiesPerWave s"
  "warnings (spawnWave s) = warnings s"
  by (simp_all add: spawnWave_def Let_def)

lemma nextWave_fields [simp]:
  "objs (nextWave s) = objs s"
  "enemies (nextWave s) = enemies s"
  "playerBullets (nextWave s) = playerBullets s"
  "enemyBullets (nextWave s) = enemyBullets s"
  "hearts (nextWave s) = hearts s"
  "nextId (nextWave s) = nextId s"
  "worm (nextWave s) = worm s"
  "gameStarted (nextWave s) = gameStarted s"
  "isGameOver (nextWave s) = isGameOver s"
  "invulnerable (nextWave s) = invulnerable s"
  "score (nextWave s) = score s"
  "health (nextWave s) = health s"
  "maxHealth (nextWave s) = maxHealth s"
  "lives (nextWave s) = lives s"
  "wave (nextWave s) = wave s"
  "enemiesPerWave (nextWave s) = enemiesPerWave s"
  "warnings (nextWave s) = warnings s"
  by (simp_all add: nextWave_def)

lemma spawnTick_fields [simp]:
  "worm (spawnTick k dr s) = worm s"
  "gameStarted (spawnTick k dr s) = gameStarted s"
  "isGameOver (spawnTick k dr s) = isGameOver s"
  "invulnerable (spawnTick k dr s) = invulnerable s"
  "score (spawnTick k dr s) = score s"
  "health (spawnTick k dr s) = health s"
  "maxHealth (spawnTick k dr s) = maxHealth s"
  "lives (spawnTick k dr s) = lives s"
  "wave (spawnTick k dr s) = wave s"
  "enemiesPerWave (spawnTick k dr s) = enemiesPerWave s"
  "nextRun (spawnTick k dr s) = nextRun s"
  "warnings (spawnTick k dr s) = warnings s"
  by (simp_all add: spawnTick_def Let_def)

lemma shootTick_fields [simp]:
  "worm (shootTick e s) = worm s"
  "gameStarted (shootTick e s) = gameStarted s"
  "isGameOver (shootTick e s) = isGameOver s"
  "invulnerable (shootTick e s) = invulnerable s"
  "score (shootTick e s) = score s"
  "health (shootTick e s) = health s"
  "maxHealth (shootTick e s) = maxHealth s"
  "lives (shootTick e s) = lives s"
  "wave (shootTick e s) = wave s"
  "enemiesPerWave (shootTick e s) = enemiesPerWave s"
  "runs (shootTick e s) = runs s"
  "nextRun (shootTick e s) = nextRun s"
  "warnings (shootTick e s) = warnings s"
  by (simp_all add: shootTick_def)

lemma checkWave_fields [simp]:
  "objs (checkWave k s) = objs s"
  "enemies (checkWave k s) = enemies s"
  "playerBullets (checkWave k s) = playerBullets s"
  "enemyBullets (checkWave k s) = enemyBullets s"
  "hearts (checkWave k s) = hearts s"
  "nextId (checkWave k s) = nextId s"
  "worm (checkWave k s) = worm s"
  "gameStarted (checkWave k s) = gameStarted s"
  "isGameOver (checkWave k s) = isGameOver s"
  "invulnerable (checkWave k s) = invulnerable s"
  "score (checkWave k s) = score s"
  "health (checkWave k s) = health s"
  "maxHealth (checkWave k s) = maxHealth s"
  "lives (checkWave k s) = lives s"
  "runs (checkWave k s) = runs s"
  "nextRun (checkWave k s) = nextRun s"
  "warnings (checkWave k s) = warnings s"
  by (simp_all add: checkWave_def Let_def)

lemma heartTick_fields [simp]:
  "worm (heartTick dr s) = worm s"
  "gameStarted (heartTick dr s) = gameStarted s"
  "isGameOver (heartTick dr s) = isGameOver s"
  "invulnerable (heartTick dr s) = invulnerable s"
  "score (heartTick dr s) = score s"
  "health (heartTick dr s) = health s"
  "maxHealth (heartTick dr s) = maxHealth s"
  "lives (heartTick dr s) = lives s"
  "wave (heartTick dr s) = wave s"
  "enemiesPerWave (heartTick dr s) = enemiesPerWave s"
  "runs (heartTick dr s) = runs s"
  "nextRun (heartTick dr s) = nextRun s"
  "warnings (heartTick dr s) = warnings s"
  by (simp_all add: heartTick_def spawnHeart_def)

lemma runCallback_fields [simp]:
  "worm (runCallback c dr s) = worm s"
  "gameStarted (runCallback c dr s) = gameStarted s"
  "isGameOver (runCallback c dr s) = isGameOver s"
  "score (runCallback c dr s) = score s"
  "health (runCallback c dr s) = health s"
  "maxHealth (runCallback c dr s) = maxHealth s"
  "lives (runCallback c dr s) = lives s"
  "warnings (runCallback c dr s) = warnings s"
  by (cases c; simp add: runCallback_def)+

lemma fire_fields [simp]:
  "worm (fire n dr s) = worm s"
  "gameStarted (fire n dr s) = gameStarted s"
  "isGameOver (fire n dr s) = isGameOver s"
  "score (fire n dr s) = score s"
  "health (fire n dr s) = health s"
  "maxHealth (fire n dr s) = maxHealth s"
  "lives (fire n dr s) = lives s"
  "warnings (fire n dr s) = warnings s"
  by (simp_all add: fire_def Let_def)

lemma bulletEnemy_fields [simp]:
  "nextId (bulletEnemy b e s) = nextId s"
  "worm (bulletEnemy b e s) = worm s"
  "gameStarted (bulletEnemy b e s) = gameStarted s"
  "isGameOver (bulletEnemy b e s) = isGameOver s"
  "invulnerable (bulletEnemy b e s) = invulnerable s"
  "health (bulletEnemy b e s) = health s"
  "maxHealth (bulletEnemy b e s) = maxHealth s"
  "lives (bulletEnemy b e s) = lives s"
  "wave (bulletEnemy b e s) = wave s"
  "enemiesPerWave (bulletEnemy b e s) = enemiesPerWave s"
  "runs (bulletEnemy b e s) = runs s"
  "nextRun (bulletEnemy b e s) = nextRun s"
  by (simp_all add: bulletEnemy_def)

lemma bulletEnemyBullet_fields [simp]:
  "nextId (bulletEnemyBullet pb eb s) = nextId s"
  "worm (bulletEnemyBullet pb eb s) = worm s"
  "gameStarted (bulletEnemyBullet pb eb s) = gameStarted s"
  "isGameOver (bulletEnemyBullet pb eb s) = isGameOver s"
  "invulnerable (bulletEnemyBullet pb eb s) = invulnerable s"
  "score (bulletEnemyBullet pb eb s) = score s"
  "health (bulletEnemyBullet pb eb s) = health s"
  "maxHealth (bulletEnemyBullet pb eb s) = maxHealth s"
  "lives (bulletEnemyBullet pb eb s) = lives s"
  "wave (bulletEnemyBullet pb eb s) = wave s"
  "enemiesPerWave (bulletEnemyBullet pb eb s) = enemiesPerWave s"
  "runs (bulletEnemyBullet pb eb s) = runs s"
  "nextRun (bulletEnemyBullet pb eb s) = nextRun s"
  by (simp_all add: bulletEnemyBullet_def Let_def)

lemma enemyBulletWorm_fields [simp]:
  "worm (enemyBulletWorm eb s) = worm s"
  "score (enemyBulletWorm eb s) = score s"
  "health (enemyBulletWorm eb s) = health s"
  "maxHealth (enemyBulletWorm eb s) = maxHealth s"
  "wave (enemyBulletWorm eb s) = wave s"
  "enemiesPerWave (enemyBulletWorm eb s) = enemiesPerWave s"
  "runs (enemyBulletWorm eb s) = runs s"
  "nextRun (enemyBulletWorm eb s) = nextRun s"
  "nextId (enemyBulletWorm eb s) = nextId s"
  by (simp_all add: enemyBulletWorm_def Let_def)

lemma enemyWorm_fields [simp]:
  "worm (enemyWorm e s) = worm s"
  "score (enemyWorm e s) = score s"
  "health (enemyWorm e s) = health s"
  "maxHealth (enemyWorm e s) = maxHealth s"
  "wave (enemyWorm e s) = wave s"
  "enemiesPerWave (enemyWorm e s) = enemiesPerWave s"
  "runs (enemyWorm e s) = runs s"
  "nextRun (enemyWorm e s) = nextRun s"
  "nextId (enemyWorm e s) = nextId s"
  by (cases e; simp add: enemyWorm_def)+

lemma bulletHeart_fields [simp]:
  "nextId (bulletHeart pb h s) = nextId s"
  "worm (bulletHeart pb h s) = worm s"
  "gameStarted (bulletHeart pb h s) = gameStarted s"
  "isGameOver (bulletHeart pb h s) = isGameOver s"
  "invulnerable (bulletHeart pb h s) = invulnerable s"
  "score (bulletHeart pb h s) = score s"
  "maxHealth (bulletHeart pb h s) = maxHealth s"
  "lives (bulletHeart pb h s) = lives s"
  "wave (bulletHeart pb h s) = wave s"
  "enemiesPerWave (bulletHeart pb h s) = enemiesPerWave s"
  "runs (bulletHeart pb h s) = runs s"
  "nextRun (bulletHeart pb h s) = nextRun s"
  by (simp_all add: bulletHeart_def Let_def)

section \<open>Health\<close>

lemma step_health: "health (step ev s) \<noteq> health s \<Longrightarrow> \<exists>pb h. ev = BulletHeart pb h"
  by (cases ev) simp_all

lemma run_health_no_heal:
  "\<forall>ev\<in>set evs. \<forall>pb h. ev \<noteq> BulletHeart pb h \<Longrightarrow> health (run evs s) = health s"
proof (induction evs arbitrary: s)
  case Nil
  then show ?case by simp
next
  case (Cons e es)
  have "health (step e s) = health s"
    using Cons.prems step_health [of e s] by auto
  with Cons show ?case by simp
qed

lemma heal_range:
  "0 \<le> maxHealth s \<Longrightarrow> 0 \<le> health s \<Longrightarrow> health s \<le> maxHealth s \<Longrightarrow>
   0 \<le> health (heal a s) \<and> health (heal a s) \<le> maxHealth s"
  by (simp add: heal_def clamp_def)

lemma heals_maxHealth [simp]: "maxHealth (heals as s) = maxHealth s"
  by (induction as arbitrary: s) simp_all

lemma heals_range:
  "0 \<le> health s \<Longrightarrow> health s \<le> maxHealth s \<Longrightarrow>
   0 \<le> health (heals as s) \<and> health (heals as s) \<le> maxHealth s"
proof (induction as arbitrary: s)
  case Nil
  then show ?case by simp
next
  case (Cons a as)
  have "0 \<le> health (heal a s) \<and> health (heal a s) \<le> maxHealth (heal a s)"
    using Cons.prems heal_range [of s a] by simp
  then show ?case using Cons.IH [of "heal a s"] by simp
qed

lemma step_maxHealth [simp]: "maxHealth (step ev s) = maxHealth s"
  by (cases ev) simp_all

lemma run_maxHealth [simp]: "maxHealth (run evs s) = maxHealth s"
  by (induction evs arbitrary: s) simp_all

lemma bulletHeart_health:
  "health (bulletHeart pb h s) = health s \<or> health (bulletHeart pb h s) = clamp (health s + HEART_HEAL_AMOUNT) 0 (maxHealth s)"
  by (simp add: bulletHeart_def Let_def heal_def)

lemma step_health_range:
  "0 \<le> health s \<Longrightarrow> health s \<le> maxHealth s \<Longrightarrow>
   0 \<le> health (step ev s) \<and> health (step ev s) \<le> maxHealth s"
proof (cases "\<exists>pb h. ev = BulletHeart pb h")
  case True
  then obtain pb h where ev: "ev = BulletHeart pb h" by blast
  assume "0 \<le> health s" "health s \<le> maxHealth s"
  then show ?thesis
    using bulletHeart_health [of pb h s] by (auto simp: ev clamp_def)
next
  case False
  assume "0 \<le> health s" "health s \<le> maxHealth s"
  moreover have "health (step ev s) = health s" using False step_health by blast
  ultimately show ?thesis by simp
qed

lemma run_health_range:
  "0 \<le> health s \<Longrightarrow> health s \<le> maxHealth s \<Longrightarrow>
   0 \<le> health (run evs s) \<and> health (run evs s) \<le> maxHealth s"
proof (induction evs arbitrary: s)
  case Nil
  then show ?case by simp
next
  case (Cons e es)
  have "0 \<le> health (step e s) \<and> health (step e s) \<le> maxHealth (step e s)"
    using Cons.prems step_health_range [of s e] by simp
  then show ?case using Cons.IH [of "step e s"] by simp
qed

text \<open>
  Claim C4. Health is changed only by heal events: a life loss (\<open>loseLife\<close>, and the two
  overlap callbacks that lose a life) leaves it as it is, and an event of a run that
  changes it is a player bullet x heart overlap, the one caller of \<open>heal\<close>. From a
  health within \<open>[0, maxHealth]\<close> every sequence of heal calls, and every run, keeps it
  there. In a game that is not over (\<open>heal\<close> returns at once when it is), a heal of
  28 at health 90 with maxHealth 100 gives 100.
\<close>

theorem C4_health_only_by_heal:
  "health (loseLife s) = health s
   \<and> health (enemyBulletWorm eb s) = health s
   \<and> health (enemyWorm e s) = health s
   \<and> (health (step ev s) \<noteq> health s \<longrightarrow> (\<exists>pb h. ev = BulletHeart pb h))
   \<and> (0 \<le> health s \<and> health s \<le> maxHealth s \<longrightarrow>
        0 \<le> health (heals as s) \<and> health (heals as s) \<le> maxHealth s
        \<and> 0 \<le> health (run evs s) \<and> health (run evs s) \<le> maxHealth s)
   \<and> (health s = 90 \<and> maxHealth s = 100 \<and> \<not> isGameOver s \<longrightarrow> health (heal 28 s) = 100)"
proof -
  have a: "health (step ev s) \<noteq> health s \<longrightarrow> (\<exists>pb h. ev = BulletHeart pb h)"
    using step_health by blast
  have b: "0 \<le> health s \<and> health s \<le> maxHealth s \<longrightarrow>
        0 \<le> health (heals as s) \<and> health (heals as s) \<le> maxHealth s
        \<and> 0 \<le> health (run evs s) \<and> health (run evs s) \<le> maxHealth s"
    using heals_range [of s as] run_health_range [of s evs] by blast
  have c: "health s = 90 \<and> maxHealth s = 100 \<and> \<not> isGameOver s \<longrightarrow> health (heal 28 s) = 100"
    by (simp add: heal_def clamp_def)
  show ?thesis using a b c by simp
qed



text \<open>The statement at the scene \<open>hurt\<close>, with the heals 28, -500 and 7.\<close>

theorem C4_health_only_by_heal_witness:
  "health (step (BulletHeart None None) hurt) = health hurt \<and> 
   0 \<le> health hurt \<and> health hurt \<le> maxHealth hurt
   \<and> health (heals [28, - 500, 7] hurt) = 7
   \<and> health hurt = 90 \<and> maxHealth hurt = 100 \<and> \<not> isGameOver hurt
   \<and> health (heal 28 hurt) = 100"
  using C4_health_only_by_heal [of hurt None None "BulletHeart None None" "[28, - 500, 7]" "[]"]
  by (simp add: hurt_def startGame_def created_def spawnWave_def Let_def clearGroup_def heal_def clamp_def bulletHeart_def refActive_def)

section \<open>safeDestroy\<close>

text \<open>
  Claim C9. Whatever the engine's destroy call does, \<open>safeDestroyWith\<close> returns
  normally. On a null reference, and on an inactive object while the worm is active, it
  returns the scene unchanged (so nothing is logged either). When the engine call throws it is caught: the result
  is a normal return of the scene the call left, with one warning added.
\<close>

theorem C9_safeDestroy_never_throws:
  "safeDestroyWith d None s = Inr s
   \<and> safeDestroy None s = s
   \<and> (active (objs s (worm s)) \<and> \<not> active (objs s i) \<longrightarrow>
        safeDestroyWith d (Some i) s = Inr s \<and> safeDestroy (Some i) s = s)
   \<and> (i \<noteq> worm s \<and> active (objs s i) \<and> d i s = Inl (err, s') \<longrightarrow>
        safeDestroyWith d (Some i) s = Inr (warn (''safeDestroy error '' @ err) s'))
   \<and> (\<exists>s''. safeDestroyWith d obj s = Inr s'')"
  by (auto simp: safeDestroyWith_def safeDestroy_Some split: option.splits sum.splits)


theorem C9_safeDestroy_never_throws_witness:
  "active (objs (destroy 2 battle) (worm (destroy 2 battle)))
   \<and> \<not> active (objs (destroy 2 battle) 2)
   \<and> safeDestroyWith (\<lambda>i s. Inl (''engine fault'', s)) (Some 2) (destroy 2 battle) = Inr (destroy 2 battle)
   \<and> 1 \<noteq> worm (destroy 2 battle) \<and> active (objs (destroy 2 battle) 1)
   \<and> safeDestroyWith (\<lambda>i s. Inl (''engine fault'', s)) (Some 1) (destroy 2 battle) =
       Inr (warn ''safeDestroy error engine fault'' (destroy 2 battle))"
  using C9_safeDestroy_never_throws [of "\<lambda>i s. Inl (''engine fault'', s)" "destroy 2 battle" 2 "''engine fault''" "destroy 2 battle" None]
        C9_safeDestroy_never_throws [of "\<lambda>i s. Inl (''engine fault'', s)" "destroy 2 battle" 1 "''engine fault''" "destroy 2 battle" None]
  by (simp add: battle_def startGame_def created_def spawnWave_def Let_def clearGroup_def newObj_def)

section \<open>The worm is never destroyed\<close>

lemma wormSafe_field_updates [simp]:
  "wormSafe (warn m s) = wormSafe s"
  "wormSafe (addScore n s) = wormSafe s"
  "wormSafe (heal a s) = wormSafe s"
  "wormSafe (addTimer c d l s) = wormSafe s"
  "wormSafe (removeTimer c s) = wormSafe s"
  "wormSafe (elapse dt s) = wormSafe s"
  "wormSafe (clearInvulnerable s) = wormSafe s"
  "wormSafe (spawnWave s) = wormSafe s"
  "wormSafe (nextWave s) = wormSafe s"
  "wormSafe (checkWave k s) = wormSafe s"
  by (simp_all add: wormSafe_def)

lemma wormSafe_destroy: "wormSafe s \<Longrightarrow> i \<noteq> worm s \<Longrightarrow> wormSafe (destroy i s)"
  by (simp add: wormSafe_def)

lemma wormSafe_clearGroup: "wormSafe s \<Longrightarrow> worm s \<notin> set g \<Longrightarrow> wormSafe (clearGroup g s)"
  by (simp add: wormSafe_def clearGroup_objs)

lemma wormSafe_safeDestroy: "wormSafe s \<Longrightarrow> wormSafe (safeDestroy r s)"
  by (cases r) (simp_all add: safeDestroy_Some wormSafe_destroy)

lemma wormSafe_endGame: "wormSafe s \<Longrightarrow> wormSafe (endGame s)"
  by (simp add: wormSafe_def endGame_def Let_def clearGroup_objs)

lemma wormSafe_loseLife: "wormSafe s \<Longrightarrow> wormSafe (loseLife s)"
proof -
  assume w: "wormSafe s"
  have "wormSafe (s\<lparr>invulnerable := True,
                    timers := timers s @ [\<lparr>cb = ClearInvulnerable, delay = INVULNERABLE_MS_AFTER_HIT, loop = False, elapsed = 0\<rparr>],
                    lives := v\<rparr>)" for v
    using w by (simp add: wormSafe_def)
  then show ?thesis
    using w by (auto simp: loseLife_def Let_def addTimer_def intro!: wormSafe_endGame)
qed

lemma wormSafe_setData:
  "wormSafe s \<Longrightarrow> wormSafe (setHasHit i v s)"
  "wormSafe s \<Longrightarrow> wormSafe (setIsShooter i v s)"
  "wormSafe s \<Longrightarrow> wormSafe (moveTo i px py s)"
  by (auto simp: wormSafe_def)

lemma wormSafe_create:
  "wormSafe s \<Longrightarrow> wormSafe (createEnemy px py s)"
  "wormSafe s \<Longrightarrow> wormSafe (createPlayerBullet px py s)"
  "wormSafe s \<Longrightarrow> wormSafe (createEnemyBullet px py s)"
  "wormSafe s \<Longrightarrow> wormSafe (createHeart px py s)"
  by (auto simp: wormSafe_def)

lemma wormSafe_cleanChild: "wormSafe s \<Longrightarrow> wormSafe (cleanChild g x s)"
  by (simp add: cleanChild_def wormSafe_safeDestroy)

lemma wormSafe_cleanLoop: "wormSafe s \<Longrightarrow> wormSafe (cleanLoop g i s)"
  by (rule cleanLoop_invariant) (simp_all add: wormSafe_cleanChild)

lemma wormSafe_cleanupObjects: "wormSafe s \<Longrightarrow> wormSafe (cleanupObjects s)"
  by (simp add: cleanupObjects_def Let_def wormSafe_cleanLoop)

lemma wormSafe_spawnTick: "wormSafe s \<Longrightarrow> wormSafe (spawnTick k dr s)"
proof -
  assume w: "wormSafe s"
  have upd: "wormSafe (t\<lparr>runs := r\<rparr>) = wormSafe t" for t r
    by (simp add: wormSafe_def)
  show ?thesis
    using w by (simp add: spawnTick_def Let_def upd wormSafe_setData wormSafe_create)
qed

lemma wormSafe_runCallback: "wormSafe s \<Longrightarrow> wormSafe (runCallback c dr s)"
  by (cases c)
     (simp_all add: runCallback_def wormSafe_spawnTick shootTick_def heartTick_def
        spawnHeart_def wormSafe_create)

lemma wormSafe_fire: "wormSafe s \<Longrightarrow> wormSafe (fire n dr s)"
proof -
  assume w: "wormSafe s"
  have upd: "wormSafe (s\<lparr>timers := ts\<rparr>)" for ts
    using w by (simp add: wormSafe_def)
  show ?thesis
    using w by (simp add: fire_def Let_def upd wormSafe_runCallback)
qed

lemma wormSafe_step: "wormSafe s \<Longrightarrow> wormSafe (step ev s)"
proof (cases ev)
  case (EnemyWorm e)
  assume "wormSafe s"
  then show ?thesis
    by (cases e)
       (simp_all add: EnemyWorm enemyWorm_def wormSafe_safeDestroy wormSafe_loseLife wormSafe_setData)
qed (simp_all add: bulletEnemy_def bulletEnemyBullet_def enemyBulletWorm_def bulletHeart_def
       Let_def update_def shootAt_def wormSafe_safeDestroy wormSafe_loseLife
       wormSafe_cleanupObjects wormSafe_create wormSafe_setData wormSafe_fire)

lemma step_worm [simp]: "worm (step ev s) = worm s"
  by (cases ev) simp_all

lemma run_worm [simp]: "worm (run evs s) = worm s"
  by (induction evs arbitrary: s) simp_all

lemma wormSafe_run: "wormSafe s \<Longrightarrow> wormSafe (run evs s)"
  by (induction evs arbitrary: s) (simp_all add: wormSafe_step)

lemma wormSafe_startGame: "wormSafe (startGame d created)"
  by (simp add: startGame_def created_def Let_def wormSafe_def clearGroup_def newObj_def)

text \<open>
  Claim C1. From a scene in which the worm is in no group, every run of overlap
  callbacks, frames, shots, moves and timer callbacks leaves the worm active and in no
  group, and \<open>startGame\<close> on the created scene gives such a scene. A destroy request
  for the worm is blocked: \<open>safeDestroy\<close> on the worm, whatever the engine's destroy
  call would do, only adds a warning to the log; and the player bullet x enemy
  callback with the worm as its enemy operand only adds a warning when it gets past its
  activity test, and does nothing otherwise.
\<close>

theorem C1_worm_never_destroyed:
  "(wormSafe s \<longrightarrow>
      active (objs (run evs s) (worm s)) \<and> worm (run evs s) = worm s \<and> wormSafe (run evs s))
   \<and> wormSafe (startGame dly created)
   \<and> safeDestroyWith d (Some (worm s)) s =
       Inr (warn ''safeDestroy blocked: attempted to destroy player worm.'' s)
   \<and> safeDestroy (Some (worm s)) s =
       warn ''safeDestroy blocked: attempted to destroy player worm.'' s
   \<and> objs (safeDestroy (Some (worm s)) s) = objs s
   \<and> bulletEnemy b (Some (worm s)) s =
       (if refActive b s \<and> active (objs s (worm s))
        then warn ''Attempted to destroy worm as enemy - blocked.'' s else s)
   \<and> objs (bulletEnemy b (Some (worm s)) s) = objs s"
proof -
  have a: "wormSafe s \<longrightarrow>
      active (objs (run evs s) (worm s)) \<and> worm (run evs s) = worm s \<and> wormSafe (run evs s)"
  proof
    assume "wormSafe s"
    then have "wormSafe (run evs s)" by (rule wormSafe_run)
    then show "active (objs (run evs s) (worm s)) \<and> worm (run evs s) = worm s \<and> wormSafe (run evs s)"
      by (simp add: wormSafe_def)
  qed
  have b: "safeDestroyWith d (Some (worm s)) s =
       Inr (warn ''safeDestroy blocked: attempted to destroy player worm.'' s)"
    by (simp add: safeDestroyWith_def)
  have c: "bulletEnemy b (Some (worm s)) s =
       (if refActive b s \<and> active (objs s (worm s))
        then warn ''Attempted to destroy worm as enemy - blocked.'' s else s)"
    by (simp add: bulletEnemy_def refActive_def)
  show ?thesis
    using a b c wormSafe_startGame by (simp add: safeDestroy_Some)
qed

text \<open>
  The statement at the scene \<open>battle\<close>: the engine reports the worm itself as the enemy
  hit by bullet 3, then as hit by enemy 1 and by enemy bullet 4, and a frame runs.
\<close>

theorem C1_worm_never_destroyed_witness:
  "wormSafe battle
   \<and> active (objs (run [BulletEnemy (Some 3) (Some 0), EnemyWorm (Some 1),
                        EnemyBulletWorm (Some 4), Update] battle) (worm battle))
   \<and> refActive (Some 3) battle \<and> active (objs battle (worm battle))
   \<and> bulletEnemy (Some 3) (Some (worm battle)) battle =
       warn ''Attempted to destroy worm as enemy - blocked.'' battle"
proof -
  have h1: "wormSafe battle"
    by (simp add: battle_def startGame_def created_def spawnWave_def Let_def clearGroup_def
          newObj_def wormSafe_def)
  have h2: "refActive (Some 3) battle \<and> active (objs battle (worm battle))"
    by (simp add: battle_def startGame_def created_def spawnWave_def Let_def clearGroup_def
          newObj_def refActive_def)
  show ?thesis
    using h1 h2
      C1_worm_never_destroyed [of battle "[BulletEnemy (Some 3) (Some 0), EnemyWorm (Some 1),
                        EnemyBulletWorm (Some 4), Update]" 7000 "\<lambda>i s. Inr s" "Some 3"]
    by simp
qed

section \<open>Lives and game over\<close>

text \<open>The definitions that evaluating a callback on a concrete scene unfolds.\<close>

lemmas scene_eval =
  battle_def lastLife_def hurt_def startGame_def created_def spawnWave_def spawnDelay_def
  Let_def clearGroup_def newObj_def refActive_def safeDestroy_Some destroy_def
  bulletEnemy_def bulletEnemyBullet_def enemyBulletWorm_def enemyWorm_def bulletHeart_def
  loseLife_def endGame_def heal_def clamp_def addScore_def warn_def addTimer_def
  removeTimer_def setHasHit_def setIsShooter_def createEnemy_def createPlayerBullet_def
  createEnemyBullet_def createHeart_def INVULNERABLE_MS_AFTER_HIT_def HEART_HEAL_AMOUNT_def

lemma loseLife_lives:
  "lives (loseLife s) = (if isGameOver s then lives s else max 0 (lives s - 1))"
  by (simp add: loseLife_def Let_def)

lemma loseLife_isGameOver:
  "isGameOver (loseLife s) \<longleftrightarrow> isGameOver s \<or> lives s \<le> 1"
  by (auto simp: loseLife_def Let_def)

lemma endGame_idem: "isGameOver s \<Longrightarrow> endGame s = s"
  by (simp add: endGame_def)

lemma loseLife_over: "isGameOver s \<Longrightarrow> loseLife s = s"
  by (simp add: loseLife_def)

lemma runCallback_lives [simp]: "lives (runCallback c dr s) = lives s"
  by simp

lemma step_lives_cases:
  "lives (step ev s) = lives s \<or> (\<not> isGameOver s \<and> lives (step ev s) = max 0 (lives s - 1))"
proof (cases ev)
  case (EnemyWorm e)
  then show ?thesis
    by (cases e) (auto simp: enemyWorm_def loseLife_lives)
next
  case (EnemyBulletWorm eb)
  then show ?thesis
    by (auto simp: enemyBulletWorm_def Let_def loseLife_lives)
qed simp_all

lemma step_lives:
  "0 \<le> lives s \<Longrightarrow> lives (step ev s) \<le> lives s \<and> 0 \<le> lives (step ev s)"
  using step_lives_cases [of ev s] by auto

lemma run_lives:
  "0 \<le> lives s \<Longrightarrow> lives (run evs s) \<le> lives s \<and> 0 \<le> lives (run evs s)"
proof (induction evs arbitrary: s)
  case Nil
  then show ?case by simp
next
  case (Cons e es)
  have st: "lives (step e s) \<le> lives s \<and> 0 \<le> lives (step e s)"
    using Cons.prems by (rule step_lives)
  then have "lives (run es (step e s)) \<le> lives (step e s) \<and> 0 \<le> lives (run es (step e s))"
    using Cons.IH by blast
  with st show ?case by simp
qed

lemma funpow_loseLife_lives:
  "0 \<le> lives s \<Longrightarrow>
   0 \<le> lives ((loseLife ^^ n) s) \<and> lives ((loseLife ^^ Suc n) s) \<le> lives ((loseLife ^^ n) s)"
  by (induction n) (auto simp: loseLife_lives)

lemma step_isGameOver: "isGameOver s \<Longrightarrow> isGameOver (step ev s)"
proof (cases ev)
  case (EnemyWorm e)
  assume "isGameOver s"
  then show ?thesis by (cases e) (simp_all add: EnemyWorm enemyWorm_def)
next
  case (EnemyBulletWorm eb)
  assume "isGameOver s"
  then show ?thesis by (simp add: EnemyBulletWorm enemyBulletWorm_def Let_def)
qed simp_all

lemma run_isGameOver: "isGameOver s \<Longrightarrow> isGameOver (run evs s)"
  by (induction evs arbitrary: s) (simp_all add: step_isGameOver)

lemma gameOverTransitions_over: "isGameOver s \<Longrightarrow> gameOverTransitions evs s = 0"
  by (induction evs arbitrary: s) (simp_all add: step_isGameOver)

lemma gameOverTransitions_le: "gameOverTransitions evs s \<le> 1"
  by (induction evs arbitrary: s) (simp_all add: gameOverTransitions_over)

lemma gameOverTransitions_eq:
  "gameOverTransitions evs s = (if \<not> isGameOver s \<and> isGameOver (run evs s) then 1 else 0)"
  by (induction evs arbitrary: s)
     (auto simp: gameOverTransitions_over run_isGameOver step_isGameOver)

lemma step_lives_zero:
  "0 < lives s \<or> isGameOver s \<Longrightarrow> 0 < lives (step ev s) \<or> isGameOver (step ev s)"
proof (cases ev)
  case (EnemyWorm e)
  assume "0 < lives s \<or> isGameOver s"
  then show ?thesis
    by (cases e) (auto simp: EnemyWorm enemyWorm_def loseLife_lives loseLife_isGameOver)
next
  case (EnemyBulletWorm eb)
  assume "0 < lives s \<or> isGameOver s"
  then show ?thesis
    by (auto simp: EnemyBulletWorm enemyBulletWorm_def Let_def loseLife_lives loseLife_isGameOver)
qed simp_all

lemma run_lives_zero:
  "0 < lives s \<or> isGameOver s \<Longrightarrow> 0 < lives (run evs s) \<or> isGameOver (run evs s)"
proof (induction evs arbitrary: s)
  case Nil
  then show ?case by simp
next
  case (Cons e es)
  have "0 < lives (step e s) \<or> isGameOver (step e s)"
    using Cons.prems by (rule step_lives_zero)
  then show ?case using Cons.IH by simp
qed

text \<open>
  Claim C2. From a non-negative lives counter, every call of \<open>loseLife\<close> and every
  event of a run leaves the counter no larger and non-negative. \<open>loseLife\<close> in a
  running game with more than one life takes one life and the game goes on; with one life
  (or less) it sets the counter to 0 and the game is over. Once the game is over
  \<open>endGame\<close> and \<open>loseLife\<close> change nothing and no event of a run makes it
  running again, so a run has at most one step into game over; and a run that starts
  with lives left ends with lives left or in game over.
\<close>

theorem C2_lives_monotone_game_over_once:
  "(0 \<le> lives s \<longrightarrow>
      0 \<le> lives ((loseLife ^^ n) s)
      \<and> lives ((loseLife ^^ Suc n) s) \<le> lives ((loseLife ^^ n) s)
      \<and> lives (step ev s) \<le> lives s \<and> 0 \<le> lives (step ev s)
      \<and> lives (run evs s) \<le> lives s \<and> 0 \<le> lives (run evs s))
   \<and> (\<not> isGameOver s \<and> 1 < lives s \<longrightarrow>
        lives (loseLife s) = lives s - 1 \<and> \<not> isGameOver (loseLife s))
   \<and> (\<not> isGameOver s \<and> lives s \<le> 1 \<longrightarrow>
        lives (loseLife s) = 0 \<and> isGameOver (loseLife s))
   \<and> (isGameOver s \<longrightarrow> endGame s = s \<and> loseLife s = s \<and> isGameOver (run evs s))
   \<and> endGame (endGame s) = endGame s
   \<and> gameOverTransitions evs s \<le> 1
   \<and> gameOverTransitions evs s = (if \<not> isGameOver s \<and> isGameOver (run evs s) then 1 else 0)
   \<and> (0 < lives s \<or> isGameOver s \<longrightarrow> 0 < lives (run evs s) \<or> isGameOver (run evs s))"
proof -
  have a: "0 \<le> lives s \<longrightarrow>
      0 \<le> lives ((loseLife ^^ n) s)
      \<and> lives ((loseLife ^^ Suc n) s) \<le> lives ((loseLife ^^ n) s)
      \<and> lives (step ev s) \<le> lives s \<and> 0 \<le> lives (step ev s)
      \<and> lives (run evs s) \<le> lives s \<and> 0 \<le> lives (run evs s)"
    using funpow_loseLife_lives [of s n] step_lives [of s ev] run_lives [of s evs] by blast
  have b: "\<not> isGameOver s \<and> 1 < lives s \<longrightarrow>
        lives (loseLife s) = lives s - 1 \<and> \<not> isGameOver (loseLife s)"
    by (simp add: loseLife_lives loseLife_isGameOver)
  have c: "\<not> isGameOver s \<and> lives s \<le> 1 \<longrightarrow>
        lives (loseLife s) = 0 \<and> isGameOver (loseLife s)"
    by (simp add: loseLife_lives loseLife_isGameOver)
  have d: "isGameOver s \<longrightarrow> endGame s = s \<and> loseLife s = s \<and> isGameOver (run evs s)"
    by (simp add: endGame_idem loseLife_over run_isGameOver)
  have e: "endGame (endGame s) = endGame s"
    by (simp add: endGame_idem)
  have f: "0 < lives s \<or> isGameOver s \<longrightarrow> 0 < lives (run evs s) \<or> isGameOver (run evs s)"
    using run_lives_zero [of s evs] by blast
  show ?thesis
    using a b c d e f gameOverTransitions_le [of evs s] gameOverTransitions_eq [of evs s]
    by blast
qed

text \<open>
  The statement at \<open>battle\<close> (three lives), at \<open>lastLife\<close> (one life) and at the
  game-over scene that \<open>loseLife\<close> makes of \<open>lastLife\<close>.
\<close>

theorem C2_lives_monotone_game_over_once_witness:
  "0 \<le> lives battle \<and> \<not> isGameOver battle \<and> 1 < lives battle
   \<and> lives (run [EnemyWorm (Some 1), EnemyBulletWorm (Some 4)] battle) \<le> lives battle
   \<and> lives (loseLife battle) = lives battle - 1 \<and> \<not> isGameOver (loseLife battle)
   \<and> \<not> isGameOver lastLife \<and> lives lastLife \<le> 1
   \<and> lives (loseLife lastLife) = 0 \<and> isGameOver (loseLife lastLife)
   \<and> endGame (loseLife lastLife) = loseLife lastLife
   \<and> loseLife (loseLife lastLife) = loseLife lastLife
   \<and> (0 < lives (run [EnemyWorm (Some 1)] lastLife) \<or> isGameOver (run [EnemyWorm (Some 1)] lastLife))"
proof -
  have h1: "0 \<le> lives battle \<and> \<not> isGameOver battle \<and> 1 < lives battle"
    by (simp add: scene_eval)
  have h2: "\<not> isGameOver lastLife \<and> lives lastLife \<le> 1 \<and> 0 < lives lastLife"
    by (simp add: scene_eval)
  show ?thesis
    using h1 h2
      C2_lives_monotone_game_over_once [of battle 0 "EnemyWorm (Some 1)"
        "[EnemyWorm (Some 1), EnemyBulletWorm (Some 4)]"]
      C2_lives_monotone_game_over_once [of lastLife 0 "EnemyWorm (Some 1)" "[EnemyWorm (Some 1)]"]
      C2_lives_monotone_game_over_once [of "loseLife lastLife" 0 "EnemyWorm (Some 1)" "[]"]
    by simp
qed

section \<open>What endGame clears\<close>

lemma endGame_clears:
  "\<not> isGameOver s \<Longrightarrow>
   playerBullets (endGame s) = [] \<and> enemyBullets (endGame s) = [] \<and> hearts (endGame s) = []"
  by (auto simp: endGame_def Let_def filter_empty_conv)

text \<open>
  Claim C3, at the scene \<open>lastLife\<close>: one life, not invulnerable, enemies 1 and 2
  active. Enemy 1 overlaps the worm: the life is lost, the game is over, the player
  bullets, enemy bullets and hearts are cleared, and enemy 2 is still an active member of
  the enemies group (enemy 1, the callback's operand here, is gone because the callback
  destroys its operand after the hit). \<open>endGame\<close> alone, whatever the operand of the
  callback that reaches it, leaves both enemies.
\<close>

theorem C3_endGame_keeps_enemies:
  "\<not> isGameOver lastLife \<and> \<not> invulnerable lastLife \<and> lives lastLife = 1
   \<and> enemies lastLife = [1, 2] \<and> active (objs lastLife 1) \<and> active (objs lastLife 2)
   \<and> isGameOver (enemyWorm (Some 1) lastLife)
   \<and> lives (enemyWorm (Some 1) lastLife) = 0
   \<and> playerBullets (enemyWorm (Some 1) lastLife) = []
   \<and> enemyBullets (enemyWorm (Some 1) lastLife) = []
   \<and> hearts (enemyWorm (Some 1) lastLife) = []
   \<and> enemies (enemyWorm (Some 1) lastLife) = [2]
   \<and> active (objs (enemyWorm (Some 1) lastLife) 2)
   \<and> enemies (endGame lastLife) = [1, 2]
   \<and> active (objs (endGame lastLife) 1) \<and> active (objs (endGame lastLife) 2)"
  by (simp add: scene_eval)

section \<open>How the callbacks change the objects\<close>

lemma safeDestroy_objs:
  "objs (safeDestroy r s) i =
     (if r = Some i \<and> i \<noteq> worm s \<and> active (objs s i)
      then (objs s i)\<lparr>active := False, hasHit := False, isShooter := False\<rparr> else objs s i)"
  by (cases r) (auto simp: safeDestroy_Some)

lemma safeDestroy_pos [simp]:
  "xpos (objs (safeDestroy r s) i) = xpos (objs s i)"
  "ypos (objs (safeDestroy r s) i) = ypos (objs s i)"
  by (simp_all add: safeDestroy_objs)

lemma safeDestroy_active: "active (objs (safeDestroy r s) i) \<Longrightarrow> active (objs s i)"
  by (simp add: safeDestroy_objs split: if_splits)

lemma cleanChild_pos [simp]:
  "xpos (objs (cleanChild g x s) i) = xpos (objs s i)"
  "ypos (objs (cleanChild g x s) i) = ypos (objs s i)"
  by (simp_all add: cleanChild_def)

lemma cleanLoop_pos [simp]:
  "xpos (objs (cleanLoop g k s) i) = xpos (objs s i)"
  "ypos (objs (cleanLoop g k s) i) = ypos (objs s i)"
  by (rule cleanLoop_invariant; simp)+

lemma cleanupObjects_pos [simp]:
  "xpos (objs (cleanupObjects s) i) = xpos (objs s i)"
  "ypos (objs (cleanupObjects s) i) = ypos (objs s i)"
  by (simp_all add: cleanupObjects_def Let_def)

lemma cleanChild_active: "active (objs (cleanChild g x s) i) \<Longrightarrow> active (objs s i)"
  by (simp add: cleanChild_def safeDestroy_active split: if_splits)

lemma runCallback_nextId: "nextId s \<le> nextId (runCallback c dr s)"
  by (cases c)
     (simp_all add: runCallback_def spawnTick_def Let_def shootTick_def heartTick_def
        spawnHeart_def)

lemma fire_nextId: "nextId s \<le> nextId (fire n dr s)"
proof -
  have "nextId s \<le> nextId (runCallback c dr (s\<lparr>timers := ts\<rparr>))" for c ts
    using runCallback_nextId [of "s\<lparr>timers := ts\<rparr>" c dr] by simp
  then show ?thesis by (simp add: fire_def Let_def)
qed

lemma step_nextId: "nextId s \<le> nextId (step ev s)"
  by (cases ev) (simp_all add: shootAt_def fire_nextId)

section \<open>The enemies x worm overlap as the engine calls it\<close>

lemma enemyWorm_flagged: "hasHit (objs s i) \<Longrightarrow> enemyWorm (Some i) s = s"
  by (simp add: enemyWorm_def)

lemma overlap_enemy_is_worm_call:
  "overlapGroupSprite enemiesWormCallback e s = enemyWorm (Some (worm s)) s"
  by (simp add: overlapGroupSprite_def enemiesWormCallback_def)

lemma overlap_enemyBullet_is_worm_call:
  "overlapGroupSprite enemyBulletsWormCallback b s = enemyBulletWorm (Some (worm s)) s"
  by (simp add: overlapGroupSprite_def enemyBulletsWormCallback_def)

text \<open>
  With the worm as the callback's first parameter, in a running game where the worm is
  in no group: the flag is set on the worm, one \<open>loseLife\<close> runs, and the destroy request
  is the blocked one for the worm, so the enemies group and every other object are as
  \<open>loseLife\<close> leaves them.
\<close>

lemma enemyWorm_on_worm:
  assumes "active (objs s (worm s))" "\<not> hasHit (objs s (worm s))"
    "\<not> invulnerable s" "\<not> isGameOver s"
  shows "enemyWorm (Some (worm s)) s
    = warn ''safeDestroy blocked: attempted to destroy player worm.''
        (loseLife (setHasHit (worm s) True s))"
  using assms by (simp add: enemyWorm_def safeDestroy_Some)

lemmas overlap_eval =
  scene_eval overlapGroupSprite_def enemiesWormCallback_def enemyBulletsWormCallback_def
  fire_def elapse_def runCallback_def clearInvulnerable_def

text \<open>
  Claim C5, at the scene \<open>battle\<close> (three lives, enemies 1 and 2 active and not flagged,
  player not invulnerable). Enemy 1 overlaps the worm and the engine calls the callback
  registered with \<^verbatim>\<open>overlap(this.enemies, this.worm, ...)\<close>, which gets the worm as its
  first parameter: a life is lost, but \<open>hasHit\<close> is set on the worm, the destroy request
  is the blocked one for the worm (one warning), and enemy 1 is still an active,
  unflagged child of the group. After the 700 ms of invulnerability enemy 2 overlaps the
  worm, with its own flag false, the player not invulnerable and the game running, and
  nothing happens: no life is lost, the enemy is neither flagged nor removed.
\<close>

theorem C5_enemy_overlap_flags_worm:
  "active (objs battle 1) \<and> \<not> hasHit (objs battle 1) \<and> \<not> invulnerable battle
   \<and> \<not> isGameOver battle \<and> lives battle = 3 \<and> enemies battle = [1, 2]
   \<and> lives (overlapGroupSprite enemiesWormCallback 1 battle) = 2
   \<and> hasHit (objs (overlapGroupSprite enemiesWormCallback 1 battle) (worm battle))
   \<and> \<not> hasHit (objs (overlapGroupSprite enemiesWormCallback 1 battle) 1)
   \<and> active (objs (overlapGroupSprite enemiesWormCallback 1 battle) 1)
   \<and> enemies (overlapGroupSprite enemiesWormCallback 1 battle) = [1, 2]
   \<and> warnings (overlapGroupSprite enemiesWormCallback 1 battle)
       = [''safeDestroy blocked: attempted to destroy player worm.'']
   \<and> \<not> invulnerable (fire 3 \<lparr>drawY = 0, drawChance = 0, drawDelay = 0\<rparr>
         (elapse 700 (overlapGroupSprite enemiesWormCallback 1 battle)))
   \<and> \<not> isGameOver (fire 3 \<lparr>drawY = 0, drawChance = 0, drawDelay = 0\<rparr>
         (elapse 700 (overlapGroupSprite enemiesWormCallback 1 battle)))
   \<and> active (objs (fire 3 \<lparr>drawY = 0, drawChance = 0, drawDelay = 0\<rparr>
         (elapse 700 (overlapGroupSprite enemiesWormCallback 1 battle))) 2)
   \<and> \<not> hasHit (objs (fire 3 \<lparr>drawY = 0, drawChance = 0, drawDelay = 0\<rparr>
         (elapse 700 (overlapGroupSprite enemiesWormCallback 1 battle))) 2)
   \<and> lives (overlapGroupSprite enemiesWormCallback 2
         (fire 3 \<lparr>drawY = 0, drawChance = 0, drawDelay = 0\<rparr>
           (elapse 700 (overlapGroupSprite enemiesWormCallback 1 battle)))) = 2
   \<and> \<not> hasHit (objs (overlapGroupSprite enemiesWormCallback 2
         (fire 3 \<lparr>drawY = 0, drawChance = 0, drawDelay = 0\<rparr>
           (elapse 700 (overlapGroupSprite enemiesWormCallback 1 battle)))) 2)
   \<and> active (objs (overlapGroupSprite enemiesWormCallback 2
         (fire 3 \<lparr>drawY = 0, drawChance = 0, drawDelay = 0\<rparr>
           (elapse 700 (overlapGroupSprite enemiesWormCallback 1 battle)))) 2)
   \<and> enemies (overlapGroupSprite enemiesWormCallback 2
         (fire 3 \<lparr>drawY = 0, drawChance = 0, drawDelay = 0\<rparr>
           (elapse 700 (overlapGroupSprite enemiesWormCallback 1 battle)))) = [1, 2]"
  by (simp add: overlap_eval)

section \<open>Hearts and the game-over guard of heal\<close>

lemma overEmpty_safeDestroy: "overEmpty s \<Longrightarrow> overEmpty (safeDestroy r s)"
  by (cases r) (auto simp: overEmpty_def safeDestroy_Some)

lemma overEmpty_endGame: "overEmpty s \<Longrightarrow> overEmpty (endGame s)"
  by (auto simp: overEmpty_def endGame_def Let_def filter_empty_conv)

lemma overEmpty_loseLife: "overEmpty s \<Longrightarrow> overEmpty (loseLife s)"
proof -
  assume o: "overEmpty s"
  have "overEmpty (s\<lparr>invulnerable := True,
                    timers := ts, lives := v\<rparr>)" for v ts
    using o by (simp add: overEmpty_def)
  then show ?thesis
    using o by (auto simp: loseLife_def Let_def addTimer_def intro!: overEmpty_endGame)
qed

lemma overEmpty_field_updates [simp]:
  "overEmpty (warn m s) = overEmpty s"
  "overEmpty (addScore n s) = overEmpty s"
  "overEmpty (heal a s) = overEmpty s"
  "overEmpty (addTimer c d l s) = overEmpty s"
  "overEmpty (removeTimer c s) = overEmpty s"
  "overEmpty (elapse dt s) = overEmpty s"
  "overEmpty (clearInvulnerable s) = overEmpty s"
  "overEmpty (spawnWave s) = overEmpty s"
  "overEmpty (nextWave s) = overEmpty s"
  "overEmpty (checkWave k s) = overEmpty s"
  "overEmpty (setHasHit i v s) = overEmpty s"
  "overEmpty (setIsShooter i v s) = overEmpty s"
  "overEmpty (moveTo i px py s) = overEmpty s"
  "overEmpty (createEnemy px py s) = overEmpty s"
  by (simp_all add: overEmpty_def)

lemma overEmpty_cleanChild: "overEmpty s \<Longrightarrow> overEmpty (cleanChild g x s)"
  by (simp add: cleanChild_def overEmpty_safeDestroy)

lemma overEmpty_cleanLoop: "overEmpty s \<Longrightarrow> overEmpty (cleanLoop g i s)"
  by (rule cleanLoop_invariant) (simp_all add: overEmpty_cleanChild)

lemma overEmpty_cleanupObjects: "overEmpty s \<Longrightarrow> overEmpty (cleanupObjects s)"
  by (simp add: cleanupObjects_def Let_def overEmpty_cleanLoop)

lemma overEmpty_spawnTick: "overEmpty s \<Longrightarrow> overEmpty (spawnTick k dr s)"
proof -
  assume o: "overEmpty s"
  have upd: "overEmpty (t\<lparr>runs := r\<rparr>) = overEmpty t" for t r
    by (simp add: overEmpty_def)
  show ?thesis
    using o by (simp add: spawnTick_def Let_def upd)
qed

lemma overEmpty_runCallback: "overEmpty s \<Longrightarrow> overEmpty (runCallback c dr s)"
  by (cases c)
     (auto simp: runCallback_def overEmpty_spawnTick shootTick_def heartTick_def
        spawnHeart_def, auto simp: overEmpty_def)

lemma overEmpty_fire: "overEmpty s \<Longrightarrow> overEmpty (fire n dr s)"
proof -
  assume o: "overEmpty s"
  have upd: "overEmpty (s\<lparr>timers := ts\<rparr>)" for ts
    using o by (simp add: overEmpty_def)
  show ?thesis
    using o by (simp add: fire_def Let_def upd overEmpty_runCallback)
qed

lemma overEmpty_shootAt: "overEmpty s \<Longrightarrow> overEmpty (shootAt s)"
  by (auto simp: shootAt_def overEmpty_def)

lemma overEmpty_step: "overEmpty s \<Longrightarrow> overEmpty (step ev s)"
proof (cases ev)
  case (EnemyWorm e)
  assume "overEmpty s"
  then show ?thesis
    by (cases e)
       (simp_all add: EnemyWorm enemyWorm_def overEmpty_safeDestroy overEmpty_loseLife)
qed (simp_all add: bulletEnemy_def bulletEnemyBullet_def enemyBulletWorm_def bulletHeart_def
       Let_def update_def overEmpty_shootAt overEmpty_safeDestroy overEmpty_loseLife
       overEmpty_cleanupObjects overEmpty_fire)

lemma overEmpty_run: "overEmpty s \<Longrightarrow> overEmpty (run evs s)"
  by (induction evs arbitrary: s) (simp_all add: overEmpty_step)

lemma overEmpty_startGame: "overEmpty (startGame d created)"
  by (simp add: startGame_def created_def Let_def overEmpty_def clearGroup_def)

lemma bulletHeart_collect:
  assumes "wormSafe s" "overEmpty s" "h \<in> set (hearts s)" "active (objs s h)" "pb \<noteq> Some h"
  shows "\<not> active (objs (bulletHeart pb (Some h) s) h)
    \<and> h \<notin> set (hearts (bulletHeart pb (Some h) s))
    \<and> health (bulletHeart pb (Some h) s) = clamp (health s + 28) 0 (maxHealth s)"
proof -
  let ?s1 = "if refActive pb s then safeDestroy pb s else s"
  have hw: "h \<noteq> worm s" using assms(1,3) by (auto simp: wormSafe_def)
  have go: "\<not> isGameOver s" using assms(2,3) by (auto simp: overEmpty_def)
  have a1: "active (objs ?s1 h)"
    using assms(4,5) by (cases pb) (simp_all add: safeDestroy_objs)
  have bh: "bulletHeart pb (Some h) s = heal HEART_HEAL_AMOUNT (safeDestroy (Some h) ?s1)"
    using a1 by (simp add: bulletHeart_def Let_def refActive_def)
  have w1: "h \<noteq> worm ?s1" using hw by simp
  have g1: "\<not> isGameOver (safeDestroy (Some h) ?s1)" using go by simp
  have "\<not> active (objs (safeDestroy (Some h) ?s1) h)
        \<and> h \<notin> set (hearts (safeDestroy (Some h) ?s1))"
    using a1 w1 by (simp add: safeDestroy_Some)
  moreover have "health (heal HEART_HEAL_AMOUNT (safeDestroy (Some h) ?s1))
      = clamp (health s + 28) 0 (maxHealth s)"
    using g1 by (simp add: heal_def HEART_HEAL_AMOUNT_def)
  ultimately show ?thesis by (simp add: bh)
qed

lemma bulletEnemy_inactive: "\<not> (refActive b s \<and> refActive e s) \<Longrightarrow> bulletEnemy b e s = s"
  by (auto simp: bulletEnemy_def)

lemma bulletEnemy_both:
  "refActive b s \<Longrightarrow> refActive e s \<Longrightarrow> e \<noteq> Some (worm s) \<Longrightarrow>
   score (bulletEnemy b e s) = score s + 10"
  by (simp add: bulletEnemy_def)

text \<open>
  Claim C10. In a scene that satisfies the invariants (the worm is in no group, and
  after game over no heart is left), the player bullet x heart callback on an active
  heart of the hearts group leaves the heart inactive and out of the group and sets the
  health to the clamped sum with 28, whatever the bullet reference is: null, inactive or
  active. The invariants hold after \<open>startGame\<close> and after every run. The player bullet
  x enemy callback returns the scene unchanged unless both the bullet and the enemy are
  active.
\<close>

theorem C10_heart_needs_no_active_bullet:
  "(wormSafe s \<and> overEmpty s \<and> h \<in> set (hearts s) \<and> active (objs s h) \<and> pb \<noteq> Some h \<longrightarrow>
      \<not> active (objs (bulletHeart pb (Some h) s) h)
      \<and> h \<notin> set (hearts (bulletHeart pb (Some h) s))
      \<and> health (bulletHeart pb (Some h) s) = clamp (health s + 28) 0 (maxHealth s))
   \<and> (wormSafe s \<and> overEmpty s \<longrightarrow> wormSafe (run evs s) \<and> overEmpty (run evs s))
   \<and> wormSafe (startGame d created) \<and> overEmpty (startGame d created)
   \<and> (\<not> (refActive b s \<and> refActive e s) \<longrightarrow> bulletEnemy b e s = s)"
proof -
  have a: "wormSafe s \<and> overEmpty s \<and> h \<in> set (hearts s) \<and> active (objs s h) \<and> pb \<noteq> Some h \<longrightarrow>
      \<not> active (objs (bulletHeart pb (Some h) s) h)
      \<and> h \<notin> set (hearts (bulletHeart pb (Some h) s))
      \<and> health (bulletHeart pb (Some h) s) = clamp (health s + 28) 0 (maxHealth s)"
    using bulletHeart_collect [of s h pb] by fast
  have b: "wormSafe s \<and> overEmpty s \<longrightarrow> wormSafe (run evs s) \<and> overEmpty (run evs s)"
    using wormSafe_run [of s evs] overEmpty_run [of s evs] by fast
  have c: "\<not> (refActive b s \<and> refActive e s) \<longrightarrow> bulletEnemy b e s = s"
    using bulletEnemy_inactive [of b s e] by fast
  show ?thesis
    using a b c wormSafe_startGame [of d] overEmpty_startGame [of d] by (intro conjI)
qed

text \<open>
  The statement at \<open>hurt\<close> with a heart added (object 1): the bullet reference is null;
  and the bullet x enemy callback at \<open>battle\<close> with a null bullet.
\<close>

theorem C10_heart_needs_no_active_bullet_witness:
  "wormSafe (createHeart 300 200 hurt) \<and> overEmpty (createHeart 300 200 hurt)
   \<and> 1 \<in> set (hearts (createHeart 300 200 hurt))
   \<and> active (objs (createHeart 300 200 hurt) 1)
   \<and> \<not> active (objs (bulletHeart None (Some 1) (createHeart 300 200 hurt)) 1)
   \<and> 1 \<notin> set (hearts (bulletHeart None (Some 1) (createHeart 300 200 hurt)))
   \<and> health (bulletHeart None (Some 1) (createHeart 300 200 hurt)) = 100
   \<and> \<not> (refActive None battle \<and> refActive (Some 1) battle)
   \<and> bulletEnemy None (Some 1) battle = battle"
proof -
  have h: "wormSafe (createHeart 300 200 hurt) \<and> overEmpty (createHeart 300 200 hurt)
   \<and> 1 \<in> set (hearts (createHeart 300 200 hurt))
   \<and> active (objs (createHeart 300 200 hurt) 1)
   \<and> clamp (health (createHeart 300 200 hurt) + 28) 0 (maxHealth (createHeart 300 200 hurt)) = 100"
    by (simp add: scene_eval wormSafe_def overEmpty_def)
  have g: "\<not> (refActive None battle \<and> refActive (Some 1) battle)"
    by (simp add: refActive_def)
  show ?thesis
    using h g
      C10_heart_needs_no_active_bullet [of "createHeart 300 200 hurt" 1 None "[]" 7000 None "Some 1"]
      C10_heart_needs_no_active_bullet [of battle 1 None "[]" 7000 None "Some 1"]
    by simp
qed

section \<open>The groups hold distinct objects\<close>

lemma children_safeDestroy:
  "children g (safeDestroy (Some y) s) =
     (if y \<noteq> worm s \<and> active (objs s y) then removeAll y (children g s) else children g s)"
  by (cases g) (simp_all add: safeDestroy_Some)

lemma groupsOk_children:
  assumes "groupsOk s"
  shows "distinct (children g s)"
    and "g \<noteq> g' \<Longrightarrow> set (children g s) \<inter> set (children g' s) = {}"
  using assms by (cases g; cases g'; auto simp: groupsOk_def)+

lemma groupsOk_destroy: "groupsOk s \<Longrightarrow> groupsOk (destroy i s)"
proof -
  assume g: "groupsOk s"
  let ?all = "playerBullets s @ enemyBullets s @ enemies s @ hearts s"
  have eq: "removeAll i (playerBullets s) @ removeAll i (enemyBullets s)
            @ removeAll i (enemies s) @ removeAll i (hearts s) = removeAll i ?all"
    by simp
  have "distinct (removeAll i ?all)" using g by (simp only: groupsOk_def distinct_removeAll)
  moreover have "\<forall>j \<in> set (removeAll i ?all). j < nextId s"
    using g by (auto simp: groupsOk_def)
  ultimately show ?thesis
    unfolding groupsOk_def destroy_fields eq by simp
qed

lemma groupsOk_safeDestroy: "groupsOk s \<Longrightarrow> groupsOk (safeDestroy r s)"
proof (cases r)
  case None
  assume "groupsOk s"
  then show ?thesis using None by simp
next
  case (Some i)
  assume g: "groupsOk s"
  have w: "groupsOk (warn m s)" for m using g by (simp add: groupsOk_def)
  show ?thesis using g w Some by (simp add: safeDestroy_Some groupsOk_destroy)
qed

lemma groupsOk_cleanChild: "groupsOk s \<Longrightarrow> groupsOk (cleanChild g x s)"
  by (simp add: cleanChild_def groupsOk_safeDestroy)

lemma groupsOk_cleanLoop: "groupsOk s \<Longrightarrow> groupsOk (cleanLoop g i s)"
  by (rule cleanLoop_invariant) (simp_all add: groupsOk_cleanChild)

lemma groupsOk_cleanupObjects: "groupsOk s \<Longrightarrow> groupsOk (cleanupObjects s)"
  by (simp add: cleanupObjects_def Let_def groupsOk_cleanLoop)

lemma groupsOk_field_updates [simp]:
  "groupsOk (warn m s) = groupsOk s"
  "groupsOk (addScore n s) = groupsOk s"
  "groupsOk (heal a s) = groupsOk s"
  "groupsOk (addTimer c d l s) = groupsOk s"
  "groupsOk (removeTimer c s) = groupsOk s"
  "groupsOk (elapse dt s) = groupsOk s"
  "groupsOk (clearInvulnerable s) = groupsOk s"
  "groupsOk (spawnWave s) = groupsOk s"
  "groupsOk (nextWave s) = groupsOk s"
  "groupsOk (checkWave k s) = groupsOk s"
  "groupsOk (setHasHit i v s) = groupsOk s"
  "groupsOk (setIsShooter i v s) = groupsOk s"
  "groupsOk (moveTo i px py s) = groupsOk s"
  by (simp_all add: groupsOk_def)

lemma groupsOk_clearGroup: "groupsOk s \<Longrightarrow> groupsOk (clearGroup g s)"
proof -
  assume g: "groupsOk s"
  let ?all = "playerBullets s @ enemyBullets s @ enemies s @ hearts s"
  let ?P = "\<lambda>i. i \<notin> set g"
  have eq: "filter ?P (playerBullets s) @ filter ?P (enemyBullets s)
            @ filter ?P (enemies s) @ filter ?P (hearts s) = filter ?P ?all"
    by simp
  have "distinct (filter ?P ?all)" using g by (simp only: groupsOk_def distinct_filter)
  moreover have "\<forall>j \<in> set (filter ?P ?all). j < nextId s"
    using g by (auto simp: groupsOk_def)
  ultimately show ?thesis
    unfolding groupsOk_def clearGroup_pools clearGroup_fields eq by simp
qed

lemma groupsOk_endGame: "groupsOk s \<Longrightarrow> groupsOk (endGame s)"
proof -
  assume g: "groupsOk s"
  have "groupsOk (s\<lparr>isGameOver := True, gameStarted := False\<rparr>)"
    using g by (simp add: groupsOk_def)
  then show ?thesis
    using g by (simp add: endGame_def Let_def groupsOk_clearGroup)
qed

lemma groupsOk_loseLife: "groupsOk s \<Longrightarrow> groupsOk (loseLife s)"
proof -
  assume g: "groupsOk s"
  have "groupsOk (s\<lparr>invulnerable := True, timers := ts, lives := v\<rparr>)" for v ts
    using g by (simp add: groupsOk_def)
  then show ?thesis
    using g by (auto simp: loseLife_def Let_def addTimer_def intro!: groupsOk_endGame)
qed

lemma groupsOk_fresh:
  assumes "groupsOk s"
  shows "nextId s \<notin> set (playerBullets s)" "nextId s \<notin> set (enemyBullets s)"
    "nextId s \<notin> set (enemies s)" "nextId s \<notin> set (hearts s)"
  using assms unfolding groupsOk_def by fastforce+

lemma groupsOk_bound:
  assumes "groupsOk s"
  shows "\<forall>i \<in> set (playerBullets s). i < Suc (nextId s)"
    "\<forall>i \<in> set (enemyBullets s). i < Suc (nextId s)"
    "\<forall>i \<in> set (enemies s). i < Suc (nextId s)"
    "\<forall>i \<in> set (hearts s). i < Suc (nextId s)"
  using assms unfolding groupsOk_def by (simp_all add: less_Suc_eq)

lemma groupsOk_distinct:
  assumes "groupsOk s"
  shows "distinct (playerBullets s @ enemyBullets s @ enemies s @ hearts s)"
  using assms unfolding groupsOk_def by simp

lemma groupsOk_create:
  "groupsOk s \<Longrightarrow> groupsOk (createEnemy px py s)"
  "groupsOk s \<Longrightarrow> groupsOk (createPlayerBullet px py s)"
  "groupsOk s \<Longrightarrow> groupsOk (createEnemyBullet px py s)"
  "groupsOk s \<Longrightarrow> groupsOk (createHeart px py s)"
proof -
  assume g: "groupsOk s"
  note f = groupsOk_fresh [OF g] groupsOk_bound [OF g] groupsOk_distinct [OF g]
  show "groupsOk (createEnemy px py s)"
    using f by (simp add: groupsOk_def createEnemy_def ball_Un)
  show "groupsOk (createPlayerBullet px py s)"
    using f by (simp add: groupsOk_def createPlayerBullet_def ball_Un)
  show "groupsOk (createEnemyBullet px py s)"
    using f by (simp add: groupsOk_def createEnemyBullet_def ball_Un)
  show "groupsOk (createHeart px py s)"
    using f by (simp add: groupsOk_def createHeart_def ball_Un)
qed

lemma groupsOk_spawnTick: "groupsOk s \<Longrightarrow> groupsOk (spawnTick k dr s)"
proof -
  assume w: "groupsOk s"
  have upd: "groupsOk (t\<lparr>runs := r\<rparr>) = groupsOk t" for t r
    by (simp add: groupsOk_def)
  show ?thesis
    using w by (simp add: spawnTick_def Let_def upd groupsOk_create)
qed

lemma groupsOk_runCallback: "groupsOk s \<Longrightarrow> groupsOk (runCallback c dr s)"
  by (cases c)
     (simp_all add: runCallback_def groupsOk_spawnTick shootTick_def heartTick_def
        spawnHeart_def groupsOk_create)

lemma groupsOk_fire: "groupsOk s \<Longrightarrow> groupsOk (fire n dr s)"
proof -
  assume w: "groupsOk s"
  have upd: "groupsOk (s\<lparr>timers := ts\<rparr>)" for ts
    using w by (simp add: groupsOk_def)
  show ?thesis
    using w by (simp add: fire_def Let_def upd groupsOk_runCallback)
qed

lemma groupsOk_step: "groupsOk s \<Longrightarrow> groupsOk (step ev s)"
proof (cases ev)
  case (EnemyWorm e)
  assume "groupsOk s"
  then show ?thesis
    by (cases e)
       (simp_all add: EnemyWorm enemyWorm_def groupsOk_safeDestroy groupsOk_loseLife)
qed (simp_all add: bulletEnemy_def bulletEnemyBullet_def enemyBulletWorm_def bulletHeart_def
       Let_def update_def shootAt_def groupsOk_safeDestroy groupsOk_loseLife
       groupsOk_cleanupObjects groupsOk_create groupsOk_fire)

lemma groupsOk_run: "groupsOk s \<Longrightarrow> groupsOk (run evs s)"
  by (induction evs arbitrary: s) (simp_all add: groupsOk_step)

lemma groupsOk_startGame: "groupsOk (startGame d created)"
  by (simp add: startGame_def created_def Let_def groupsOk_def clearGroup_def)

section \<open>Which children a cleanup loop visits\<close>

lemma removeAll_nth_distinct:
  assumes "distinct xs" "i < length xs"
  shows "removeAll (xs ! i) xs = take i xs @ drop (Suc i) xs"
proof -
  have xs: "xs = take i xs @ xs ! i # drop (Suc i) xs"
    using assms(2) by (rule id_take_nth_drop)
  have "distinct (take i xs @ xs ! i # drop (Suc i) xs)"
    using assms(1) xs by simp
  then have "xs ! i \<notin> set (take i xs)" "xs ! i \<notin> set (drop (Suc i) xs)"
    by auto
  then have "removeAll (xs ! i) (take i xs @ xs ! i # drop (Suc i) xs)
      = take i xs @ drop (Suc i) xs"
    by simp
  then show ?thesis using xs by simp
qed

lemma removeAll_nth_length:
  "distinct xs \<Longrightarrow> i < length xs \<Longrightarrow> length (removeAll (xs ! i) xs) = length xs - 1"
  by (simp add: removeAll_nth_distinct)

lemma removeAll_nth_shift:
  assumes "distinct xs" "i < length xs" "i \<le> j" "Suc j < length xs"
  shows "removeAll (xs ! i) xs ! j = xs ! Suc j"
proof -
  have "(take i xs @ drop (Suc i) xs) ! j = drop (Suc i) xs ! (j - i)"
    using assms(2,3) by (simp add: nth_append)
  also have "\<dots> = xs ! (Suc i + (j - i))"
    using assms by simp
  also have "Suc i + (j - i) = Suc j" using assms(3) by simp
  finally show ?thesis using assms(1,2) by (simp add: removeAll_nth_distinct)
qed

lemma removed_safeDestroy: "removed s i \<Longrightarrow> removed (safeDestroy r s) i"
  by (cases r) (auto simp: removed_def safeDestroy_Some)

lemma safeDestroy_removes:
  "i \<noteq> worm s \<Longrightarrow> active (objs s i) \<Longrightarrow> removed (safeDestroy (Some i) s) i"
  by (simp add: removed_def safeDestroy_Some)

lemma removed_cleanChild: "removed s i \<Longrightarrow> removed (cleanChild g x s) i"
  by (simp add: cleanChild_def removed_safeDestroy)

lemma removed_cleanLoop: "removed s i \<Longrightarrow> removed (cleanLoop g k s) i"
  by (rule cleanLoop_invariant) (simp_all add: removed_cleanChild)

lemma cleanChild_due:
  "due g s y \<Longrightarrow> cleanChild g y s = safeDestroy (Some y) s"
  by (simp add: cleanChild_def due_def)

lemma cleanChild_not_due: "\<not> due g s y \<Longrightarrow> cleanChild g y s = s"
  by (auto simp: cleanChild_def due_def)

lemma due_safeDestroy_other:
  "x \<noteq> y \<Longrightarrow> due g (safeDestroy (Some y) s) x = due g s x"
  by (simp add: due_def safeDestroy_objs)

text \<open>
  The loop at index \<open>i\<close> removes the child at index \<open>k\<close> when it is due and the loop
  reaches it: it is the child at the loop's index, or the child before it is not due.
\<close>

lemma cleanLoop_removes:
  assumes "distinct (children g s)" "worm s \<notin> set (children g s)"
    "i \<le> k" "k < length (children g s)" "children g s ! k = x" "due g s x"
    "i < k \<longrightarrow> \<not> due g s (children g s ! (k - 1))"
  shows "removed (cleanLoop g i s) x"
  using assms
proof (induction g i s arbitrary: k rule: cleanLoop.induct)
  case (1 g i s)
  let ?xs = "children g s"
  let ?y = "?xs ! i"
  let ?s' = "cleanChild g ?y s"
  have il: "i < length ?xs" using "1.prems"(3,4) by simp
  have step: "cleanLoop g i s = cleanLoop g (Suc i) ?s'"
    using il by (rule cleanLoop_step)
  have xw: "x \<noteq> worm s" using "1.prems"(2,4,5) by (metis nth_mem)
  show ?case
  proof (cases "i = k")
    case True
    then have "?s' = safeDestroy (Some x) s"
      using "1.prems"(5,6) by (simp add: cleanChild_due)
    then have "removed ?s' x"
      using safeDestroy_removes [OF xw] "1.prems"(6) by (simp add: due_def)
    then show ?thesis unfolding step by (rule removed_cleanLoop)
  next
    case False
    then have ik: "i < k" using "1.prems"(3) by simp
    then have pnd: "\<not> due g s (?xs ! (k - 1))" using "1.prems"(7) by simp
    show ?thesis
    proof (cases "due g s ?y")
      case True
      have yw: "?y \<noteq> worm s" using "1.prems"(2) il by (metis nth_mem)
      have yact: "active (objs s ?y)" using True by (simp add: due_def)
      have s': "?s' = safeDestroy (Some ?y) s" using True by (rule cleanChild_due)
      have ch: "children g ?s' = removeAll ?y ?xs"
        using yw yact by (simp add: s' children_safeDestroy)
      have ik1: "i \<noteq> k - 1" using True pnd by auto
      then have sik: "Suc i \<le> k - 1" using ik by arith
      have d': "distinct (children g ?s')" using "1.prems"(1) by (simp add: ch distinct_removeAll)
      have w': "worm ?s' \<notin> set (children g ?s')" using "1.prems"(2) by (simp add: ch)
      have len: "k - 1 < length (children g ?s')"
        using "1.prems"(1,4) il ik by (simp add: ch removeAll_nth_length)
      have "removeAll ?y ?xs ! (k - 1) = ?xs ! Suc (k - 1)"
        using "1.prems"(1,4) il ik by (intro removeAll_nth_shift) simp_all
      moreover have "Suc (k - 1) = k" using ik by arith
      ultimately have xk: "children g ?s' ! (k - 1) = x"
        using "1.prems"(5) by (simp only: ch)
      have xy: "x \<noteq> ?y"
        using "1.prems"(1,4,5) il ik by (auto simp: nth_eq_iff_index_eq)
      have "due g (safeDestroy (Some ?y) s) x"
        using "1.prems"(6) xy by (simp add: due_safeDestroy_other)
      then have duex: "due g ?s' x" by (simp add: s')
      have pred: "Suc i < k - 1 \<longrightarrow> \<not> due g ?s' (children g ?s' ! (k - 1 - 1))"
      proof
        assume lt: "Suc i < k - 1"
        have "removeAll ?y ?xs ! (k - 1 - 1) = ?xs ! Suc (k - 1 - 1)"
          using "1.prems"(1,4) il lt by (intro removeAll_nth_shift) simp_all
        moreover have "Suc (k - 1 - 1) = k - 1" using lt by arith
        ultimately have p: "children g ?s' ! (k - 1 - 1) = ?xs ! (k - 1)"
          by (simp only: ch)
        have "?xs ! (k - 1) \<noteq> ?y"
          using "1.prems"(1,4) il ik1 by (simp add: nth_eq_iff_index_eq)
        then have "\<not> due g (safeDestroy (Some ?y) s) (?xs ! (k - 1))"
          using pnd by (simp add: due_safeDestroy_other)
        then have "\<not> due g ?s' (?xs ! (k - 1))" by (simp add: s')
        then show "\<not> due g ?s' (children g ?s' ! (k - 1 - 1))" unfolding p .
      qed
      have "removed (cleanLoop g (Suc i) ?s') x"
        using il d' w' sik len xk duex pred by (rule "1.IH")
      then show ?thesis by (simp add: step)
    next
      case False
      then have s': "?s' = s" by (rule cleanChild_not_due)
      have "removed (cleanLoop g (Suc i) ?s') x"
      proof (rule "1.IH" [OF il, of k])
        show "distinct (children g ?s')" using "1.prems"(1) by (simp add: s')
        show "worm ?s' \<notin> set (children g ?s')" using "1.prems"(2) by (simp add: s')
        show "Suc i \<le> k" using ik by simp
        show "k < length (children g ?s')" using "1.prems"(4) by (simp add: s')
        show "children g ?s' ! k = x" using "1.prems"(5) by (simp add: s')
        show "due g ?s' x" using "1.prems"(6) by (simp add: s')
        show "Suc i < k \<longrightarrow> \<not> due g ?s' (children g ?s' ! (k - 1))"
          using pnd by (simp add: s')
      qed
      then show ?thesis by (simp add: step)
    qed
  qed
qed

section \<open>The four loops of cleanupObjects\<close>

lemma wormSafe_children: "wormSafe s \<Longrightarrow> worm s \<notin> set (children g s)"
  by (cases g) (simp_all add: wormSafe_def)

lemma cleanChild_other:
  assumes "groupsOk t" "g \<noteq> g'" "y \<in> set (children g' t)"
  shows "children g (cleanChild g' y t) = children g t"
    and "x \<in> set (children g t) \<Longrightarrow> objs (cleanChild g' y t) x = objs t x"
proof -
  have "set (children g t) \<inter> set (children g' t) = {}"
    using assms(1,2) by (rule groupsOk_children(2))
  then have y: "y \<notin> set (children g t)" using assms(3) by auto
  then show "children g (cleanChild g' y t) = children g t"
    by (simp add: cleanChild_def children_safeDestroy)
  assume "x \<in> set (children g t)"
  then have "x \<noteq> y" using y by auto
  then show "objs (cleanChild g' y t) x = objs t x"
    by (simp add: cleanChild_def safeDestroy_objs)
qed

text \<open>A loop over another group leaves a group and its children as they are.\<close>

lemma cleanLoop_other:
  assumes "groupsOk t" "wormSafe t" "g \<noteq> g'" "children g t = xs"
    "\<forall>x \<in> set xs. objs t x = f x"
  shows "groupsOk (cleanLoop g' i t) \<and> wormSafe (cleanLoop g' i t)
    \<and> children g (cleanLoop g' i t) = xs \<and> (\<forall>x \<in> set xs. objs (cleanLoop g' i t) x = f x)"
proof (rule cleanLoop_invariant)
  show "groupsOk t \<and> wormSafe t \<and> children g t = xs \<and> (\<forall>x \<in> set xs. objs t x = f x)"
    using assms by simp
next
  fix y u
  assume q: "groupsOk u \<and> wormSafe u \<and> children g u = xs \<and> (\<forall>x \<in> set xs. objs u x = f x)"
    and y: "y \<in> set (children g' u)"
  have gu: "groupsOk u" using q by simp
  have c: "children g (cleanChild g' y u) = children g u"
    using gu assms(3) y by (rule cleanChild_other(1))
  have o: "\<forall>x \<in> set xs. objs (cleanChild g' y u) x = objs u x"
  proof
    fix x assume "x \<in> set xs"
    then have "x \<in> set (children g u)" using q by simp
    with gu assms(3) y show "objs (cleanChild g' y u) x = objs u x"
      by (rule cleanChild_other(2))
  qed
  show "groupsOk (cleanChild g' y u) \<and> wormSafe (cleanChild g' y u)
    \<and> children g (cleanChild g' y u) = xs \<and> (\<forall>x \<in> set xs. objs (cleanChild g' y u) x = f x)"
    using q c o by (simp add: groupsOk_cleanChild wormSafe_cleanChild)
qed

text \<open>The loop over a group, started in a scene that agrees with \<open>s\<close> on that group.\<close>

lemma pass_removes:
  assumes "groupsOk t \<and> wormSafe t \<and> children g t = children g s
      \<and> (\<forall>x \<in> set (children g s). objs t x = objs s x)"
    and "k < length (children g s)" "due g s (children g s ! k)"
    and "k = 0 \<or> \<not> due g s (children g s ! (k - 1))"
  shows "removed (cleanLoop g 0 t) (children g s ! k)"
proof (rule cleanLoop_removes [of g t 0 k])
  have same: "x \<in> set (children g s) \<Longrightarrow> due g t x = due g s x" for x
    using assms(1) by (simp add: due_def)
  have gt: "groupsOk t" and wt: "wormSafe t" using assms(1) by simp_all
  show "distinct (children g t)" using gt by (rule groupsOk_children(1))
  show "worm t \<notin> set (children g t)" using wt by (rule wormSafe_children)
  show "0 \<le> k" by simp
  show "k < length (children g t)" using assms(1,2) by simp
  show "children g t ! k = children g s ! k" using assms(1) by simp
  show "due g t (children g s ! k)" using assms(2,3) by (simp add: same)
  show "0 < k \<longrightarrow> \<not> due g t (children g t ! (k - 1))"
  proof
    assume "0 < k"
    then have "\<not> due g s (children g s ! (k - 1))" using assms(4) by simp
    moreover have "children g s ! (k - 1) \<in> set (children g s)"
      using assms(2) by simp
    ultimately show "\<not> due g t (children g t ! (k - 1))"
      using assms(1) by (simp add: same)
  qed
qed

lemma cleanup_removes:
  assumes "wormSafe s" "groupsOk s" "k < length (children g s)" "due g s (children g s ! k)"
    "k = 0 \<or> \<not> due g s (children g s ! (k - 1))"
  shows "removed (cleanupObjects s) (children g s ! k)"
proof -
  let ?x = "children g s ! k"
  let ?s1 = "cleanLoop PlayerBullets 0 s"
  let ?s2 = "cleanLoop EnemyBullets 0 ?s1"
  let ?s3 = "cleanLoop Enemies 0 ?s2"
  let ?s4 = "cleanLoop Hearts 0 ?s3"
  have c: "cleanupObjects s = ?s4" by (simp add: cleanupObjects_def Let_def)
  have q0: "groupsOk s \<and> wormSafe s \<and> children g s = children g s
      \<and> (\<forall>x \<in> set (children g s). objs s x = objs s x)"
    using assms(1,2) by simp
  note rest = assms(3,4,5)
  show ?thesis
  proof (cases g)
    case PlayerBullets
    have "removed ?s1 ?x" using pass_removes [OF q0 rest] PlayerBullets by simp
    then have "removed ?s2 ?x" by (rule removed_cleanLoop)
    then have "removed ?s3 ?x" by (rule removed_cleanLoop)
    then have "removed ?s4 ?x" by (rule removed_cleanLoop)
    then show ?thesis by (simp only: c)
  next
    case EnemyBullets
    have q1: "groupsOk ?s1 \<and> wormSafe ?s1 \<and> children g ?s1 = children g s
      \<and> (\<forall>x \<in> set (children g s). objs ?s1 x = objs s x)"
      using assms(1,2) EnemyBullets by (intro cleanLoop_other) simp_all
    have "removed (cleanLoop g 0 ?s1) ?x" using q1 rest by (rule pass_removes)
    then have "removed ?s2 ?x" using EnemyBullets by simp
    then have "removed ?s3 ?x" by (rule removed_cleanLoop)
    then have "removed ?s4 ?x" by (rule removed_cleanLoop)
    then show ?thesis by (simp only: c)
  next
    case Enemies
    have q1: "groupsOk ?s1 \<and> wormSafe ?s1 \<and> children g ?s1 = children g s
      \<and> (\<forall>x \<in> set (children g s). objs ?s1 x = objs s x)"
      using assms(1,2) Enemies by (intro cleanLoop_other) simp_all
    have q2: "groupsOk ?s2 \<and> wormSafe ?s2 \<and> children g ?s2 = children g s
      \<and> (\<forall>x \<in> set (children g s). objs ?s2 x = objs s x)"
      using q1 Enemies by (intro cleanLoop_other) simp_all
    have "removed (cleanLoop g 0 ?s2) ?x" using q2 rest by (rule pass_removes)
    then have "removed ?s3 ?x" using Enemies by simp
    then have "removed ?s4 ?x" by (rule removed_cleanLoop)
    then show ?thesis by (simp only: c)
  next
    case Hearts
    have q1: "groupsOk ?s1 \<and> wormSafe ?s1 \<and> children g ?s1 = children g s
      \<and> (\<forall>x \<in> set (children g s). objs ?s1 x = objs s x)"
      using assms(1,2) Hearts by (intro cleanLoop_other) simp_all
    have q2: "groupsOk ?s2 \<and> wormSafe ?s2 \<and> children g ?s2 = children g s
      \<and> (\<forall>x \<in> set (children g s). objs ?s2 x = objs s x)"
      using q1 Hearts by (intro cleanLoop_other) simp_all
    have q3: "groupsOk ?s3 \<and> wormSafe ?s3 \<and> children g ?s3 = children g s
      \<and> (\<forall>x \<in> set (children g s). objs ?s3 x = objs s x)"
      using q2 Hearts by (intro cleanLoop_other) simp_all
    have "removed (cleanLoop g 0 ?s3) ?x" using q3 rest by (rule pass_removes)
    then have "removed ?s4 ?x" using Hearts by simp
    then show ?thesis by (simp only: c)
  qed
qed

lemmas cleanup_eval =
  strays_def leavers_def queue_def pair_def scene_eval update_def cleanupObjects_def
  cleanLoop.simps cleanChild_def scaleWidth_def scaleHeight_def

text \<open>
  Claim C6 as stated fails. At the scene \<open>strays\<close> the frame runs the cleanup pass, and
  after it the player bullet far below the bottom edge, the enemy bullet far above the
  top edge, and the enemy and the heart far beyond the left edge are all still active
  members of their groups: those sides are not tested. At the scene \<open>queue\<close> three
  active player bullets are above the top edge; the pass removes the first and the
  third, and the second, which moved into the first one's place while the loop's index
  moved on, is still an active member of the group.
\<close>

theorem C6_cleanup_counterexample:
  "gameStarted strays \<and> \<not> isGameOver strays \<and> update strays = cleanupObjects strays
   \<and> 1 \<in> set (playerBullets strays) \<and> active (objs strays 1)
   \<and> ypos (objs strays 1) > scaleHeight + 200
   \<and> active (objs (cleanupObjects strays) 1) \<and> 1 \<in> set (playerBullets (cleanupObjects strays))
   \<and> 2 \<in> set (enemyBullets strays) \<and> active (objs strays 2)
   \<and> ypos (objs strays 2) < - 200
   \<and> active (objs (cleanupObjects strays) 2) \<and> 2 \<in> set (enemyBullets (cleanupObjects strays))
   \<and> 3 \<in> set (enemies strays) \<and> active (objs strays 3)
   \<and> xpos (objs strays 3) < - 200
   \<and> active (objs (cleanupObjects strays) 3) \<and> 3 \<in> set (enemies (cleanupObjects strays))
   \<and> 4 \<in> set (hearts strays) \<and> active (objs strays 4)
   \<and> xpos (objs strays 4) < - 200
   \<and> active (objs (cleanupObjects strays) 4) \<and> 4 \<in> set (hearts (cleanupObjects strays))
   \<and> gameStarted queue \<and> \<not> isGameOver queue \<and> update queue = cleanupObjects queue
   \<and> playerBullets queue = [1, 2, 3]
   \<and> active (objs queue 1) \<and> ypos (objs queue 1) < - 80
   \<and> active (objs queue 2) \<and> ypos (objs queue 2) < - 80
   \<and> active (objs queue 3) \<and> ypos (objs queue 3) < - 80
   \<and> \<not> active (objs (cleanupObjects queue) 1) \<and> \<not> active (objs (cleanupObjects queue) 3)
   \<and> active (objs (cleanupObjects queue) 2) \<and> playerBullets (cleanupObjects queue) = [2]"
  by (simp add: cleanup_eval)

text \<open>
  Claim C6, amended. In a scene where the worm is in no group and the groups hold
  distinct objects, the cleanup pass removes the child at index \<open>k\<close> of a group when the
  loop over that group would remove it on a visit (\<open>due\<close>: it is active and beyond a
  tested edge) and it is the first child or the child before it is not due. The tested
  edges are \<open>y < -80\<close>, \<open>x < -80\<close>, \<open>x > 980\<close> for a player bullet, \<open>y > 705\<close>,
  \<open>x < -200\<close>, \<open>x > 1100\<close> for an enemy bullet, \<open>x > 1060\<close> for an enemy and
  \<open>x > 960\<close> for a heart. A frame of a running game runs this pass, and the two
  conditions on the scene hold after \<open>startGame\<close> and after every run.
\<close>

theorem C6_cleanup_removes:
  "(wormSafe s \<and> groupsOk s \<and> k < length (children g s) \<and> due g s (children g s ! k)
      \<and> (k = 0 \<or> \<not> due g s (children g s ! (k - 1)))
      \<longrightarrow> removed (cleanupObjects s) (children g s ! k))
   \<and> (due PlayerBullets s i \<longleftrightarrow> active (objs s i)
        \<and> (ypos (objs s i) < - 80 \<or> xpos (objs s i) < - 80 \<or> xpos (objs s i) > 980))
   \<and> (due EnemyBullets s i \<longleftrightarrow> active (objs s i)
        \<and> (ypos (objs s i) > 705 \<or> xpos (objs s i) < - 200 \<or> xpos (objs s i) > 1100))
   \<and> (due Enemies s i \<longleftrightarrow> active (objs s i) \<and> xpos (objs s i) > 1060)
   \<and> (due Hearts s i \<longleftrightarrow> active (objs s i) \<and> xpos (objs s i) > 960)
   \<and> (gameStarted s \<and> \<not> isGameOver s \<longrightarrow> update s = cleanupObjects s)
   \<and> wormSafe (startGame d created) \<and> groupsOk (startGame d created)
   \<and> (wormSafe s \<and> groupsOk s \<longrightarrow> wormSafe (run evs s) \<and> groupsOk (run evs s))"
proof -
  have a: "wormSafe s \<and> groupsOk s \<and> k < length (children g s) \<and> due g s (children g s ! k)
      \<and> (k = 0 \<or> \<not> due g s (children g s ! (k - 1)))
      \<longrightarrow> removed (cleanupObjects s) (children g s ! k)"
    using cleanup_removes [of s k g] by fast
  have b: "due PlayerBullets s i \<longleftrightarrow> active (objs s i)
        \<and> (ypos (objs s i) < - 80 \<or> xpos (objs s i) < - 80 \<or> xpos (objs s i) > 980)"
    by (simp add: due_def scaleWidth_def)
  have c: "due EnemyBullets s i \<longleftrightarrow> active (objs s i)
        \<and> (ypos (objs s i) > 705 \<or> xpos (objs s i) < - 200 \<or> xpos (objs s i) > 1100)"
    by (simp add: due_def scaleWidth_def scaleHeight_def)
  have d: "due Enemies s i \<longleftrightarrow> active (objs s i) \<and> xpos (objs s i) > 1060"
    by (simp add: due_def scaleWidth_def)
  have e: "due Hearts s i \<longleftrightarrow> active (objs s i) \<and> xpos (objs s i) > 960"
    by (simp add: due_def scaleWidth_def)
  have f: "gameStarted s \<and> \<not> isGameOver s \<longrightarrow> update s = cleanupObjects s"
    by (simp add: update_def)
  have h: "wormSafe s \<and> groupsOk s \<longrightarrow> wormSafe (run evs s) \<and> groupsOk (run evs s)"
    using wormSafe_run [of s evs] groupsOk_run [of s evs] by fast
  show ?thesis
    using a b c d e f wormSafe_startGame [of d] groupsOk_startGame [of d] h by (intro conjI)
qed

text \<open>
  The amended statement at the scene \<open>leavers\<close>, for the one child of each of its four
  groups, and at the scene \<open>pair\<close>, for the second player bullet, behind one that stays.
\<close>

theorem C6_cleanup_removes_witness:
  "wormSafe leavers \<and> groupsOk leavers \<and> gameStarted leavers \<and> \<not> isGameOver leavers
   \<and> playerBullets leavers = [1] \<and> due PlayerBullets leavers 1 \<and> removed (update leavers) 1
   \<and> enemyBullets leavers = [2] \<and> due EnemyBullets leavers 2 \<and> removed (update leavers) 2
   \<and> enemies leavers = [3] \<and> due Enemies leavers 3 \<and> removed (update leavers) 3
   \<and> hearts leavers = [4] \<and> due Hearts leavers 4 \<and> removed (update leavers) 4
   \<and> wormSafe pair \<and> groupsOk pair \<and> playerBullets pair = [1, 2]
   \<and> \<not> due PlayerBullets pair 1 \<and> due PlayerBullets pair 2
   \<and> removed (cleanupObjects pair) 2"
proof -
  have h: "wormSafe leavers \<and> groupsOk leavers \<and> gameStarted leavers \<and> \<not> isGameOver leavers
   \<and> playerBullets leavers = [1] \<and> due PlayerBullets leavers 1
   \<and> enemyBullets leavers = [2] \<and> due EnemyBullets leavers 2
   \<and> enemies leavers = [3] \<and> due Enemies leavers 3
   \<and> hearts leavers = [4] \<and> due Hearts leavers 4"
    by (simp add: leavers_def scene_eval wormSafe_def groupsOk_def due_def scaleWidth_def
          scaleHeight_def)
  have p: "wormSafe pair \<and> groupsOk pair \<and> playerBullets pair = [1, 2]
   \<and> \<not> due PlayerBullets pair 1 \<and> due PlayerBullets pair 2"
    by (simp add: pair_def scene_eval wormSafe_def groupsOk_def due_def scaleWidth_def
          scaleHeight_def)
  have u: "update leavers = cleanupObjects leavers"
    using h C6_cleanup_removes [where s = leavers] by simp
  have r1: "removed (cleanupObjects leavers) 1"
    using h C6_cleanup_removes [where s = leavers and k = 0 and g = PlayerBullets,
      THEN conjunct1] by simp
  have r2: "removed (cleanupObjects leavers) 2"
    using h C6_cleanup_removes [where s = leavers and k = 0 and g = EnemyBullets,
      THEN conjunct1] by simp
  have r3: "removed (cleanupObjects leavers) 3"
    using h C6_cleanup_removes [where s = leavers and k = 0 and g = Enemies,
      THEN conjunct1] by simp
  have r4: "removed (cleanupObjects leavers) 4"
    using h C6_cleanup_removes [where s = leavers and k = 0 and g = Hearts,
      THEN conjunct1] by simp
  have r5: "removed (cleanupObjects pair) 2"
    using p C6_cleanup_removes [where s = pair and k = 1 and g = PlayerBullets,
      THEN conjunct1] by simp
  show ?thesis using h p r1 r2 r3 r4 r5 by (simp add: u)
qed

section \<open>Timers\<close>

lemma timers_safeDestroy: "set (timers (safeDestroy r s)) \<subseteq> set (timers s)"
  by (cases r) (auto simp: safeDestroy_Some)

lemma timers_endGame: "set (timers (endGame s)) \<subseteq> set (timers s)"
  by (auto simp: endGame_def Let_def)

lemma timers_loseLife:
  "set (timers (loseLife s)) \<subseteq>
     insert \<lparr>cb = ClearInvulnerable, delay = 700, loop = False, elapsed = 0\<rparr> (set (timers s))"
  by (auto simp: loseLife_def Let_def endGame_def INVULNERABLE_MS_AFTER_HIT_def)

lemma timers_cleanChild: "set (timers (cleanChild g x s)) \<subseteq> set (timers s)"
  using timers_safeDestroy by (simp add: cleanChild_def)

lemma timers_cleanLoop: "set (timers (cleanLoop g i s)) \<subseteq> set (timers s)"
proof (rule cleanLoop_invariant)
  show "set (timers s) \<subseteq> set (timers s)" by simp
next
  fix x and t :: scene
  assume "set (timers t) \<subseteq> set (timers s)"
  with timers_cleanChild [of g x t] show "set (timers (cleanChild g x t)) \<subseteq> set (timers s)"
    by (rule subset_trans)
qed

lemma timers_cleanupObjects: "set (timers (cleanupObjects s)) \<subseteq> set (timers s)"
proof -
  let ?s1 = "cleanLoop PlayerBullets 0 s"
  let ?s2 = "cleanLoop EnemyBullets 0 ?s1"
  let ?s3 = "cleanLoop Enemies 0 ?s2"
  let ?s4 = "cleanLoop Hearts 0 ?s3"
  have "set (timers ?s4) \<subseteq> set (timers ?s3)" by (rule timers_cleanLoop)
  also have "\<dots> \<subseteq> set (timers ?s2)" by (rule timers_cleanLoop)
  also have "\<dots> \<subseteq> set (timers ?s1)" by (rule timers_cleanLoop)
  also have "\<dots> \<subseteq> set (timers s)" by (rule timers_cleanLoop)
  finally show ?thesis by (simp add: cleanupObjects_def Let_def)
qed

lemma addsOnly700_refl [simp]: "addsOnly700 c s s"
  by (simp add: addsOnly700_def)

lemma addsOnly700_trans:
  "addsOnly700 c s s1 \<Longrightarrow> addsOnly700 c s1 s2 \<Longrightarrow> addsOnly700 c s s2"
  by (auto simp: addsOnly700_def)

lemma addsOnly700_subset: "set (timers s') \<subseteq> set (timers s) \<Longrightarrow> addsOnly700 c s s'"
  by (auto simp: addsOnly700_def)

lemma addsOnly700_notDue:
  "addsOnly700 c s s' \<Longrightarrow> notDue c T s \<Longrightarrow> T < 700 \<Longrightarrow> notDue c T s'"
  by (auto simp: addsOnly700_def notDue_def)

lemma addsOnly700_safeDestroy: "addsOnly700 c s (safeDestroy r s)"
  by (simp add: addsOnly700_subset timers_safeDestroy)

lemma addsOnly700_loseLife: "addsOnly700 c s (loseLife s)"
  using timers_loseLife [of s] by (auto simp: addsOnly700_def)

lemma addsOnly700_bulletEnemy: "addsOnly700 c s (bulletEnemy b e s)"
proof -
  have "addsOnly700 c s (safeDestroy e (safeDestroy b s))"
    using addsOnly700_safeDestroy addsOnly700_trans by blast
  then show ?thesis by (simp add: bulletEnemy_def addsOnly700_def)
qed

lemma addsOnly700_bulletEnemyBullet: "addsOnly700 c s (bulletEnemyBullet pb eb s)"
  by (simp add: bulletEnemyBullet_def Let_def addsOnly700_safeDestroy)
     (meson addsOnly700_safeDestroy addsOnly700_trans)

lemma addsOnly700_enemyBulletWorm: "addsOnly700 c s (enemyBulletWorm eb s)"
  by (simp add: enemyBulletWorm_def Let_def addsOnly700_safeDestroy addsOnly700_loseLife)
     (meson addsOnly700_safeDestroy addsOnly700_loseLife addsOnly700_trans)

lemma addsOnly700_enemyWorm: "addsOnly700 c s (enemyWorm e s)"
proof (cases e)
  case None
  then show ?thesis by (simp add: enemyWorm_def)
next
  case (Some i)
  have "addsOnly700 c s (setHasHit i True s)" by (simp add: addsOnly700_def)
  then have "addsOnly700 c s (safeDestroy (Some i) (loseLife (setHasHit i True s)))"
    by (meson addsOnly700_safeDestroy addsOnly700_loseLife addsOnly700_trans)
  then show ?thesis by (simp add: Some enemyWorm_def)
qed

lemma addsOnly700_bulletHeart: "addsOnly700 c s (bulletHeart pb h s)"
proof -
  have h: "addsOnly700 c t (heal a t)" for t a by (simp add: addsOnly700_def)
  show ?thesis
    by (simp add: bulletHeart_def Let_def addsOnly700_safeDestroy)
       (meson h addsOnly700_safeDestroy addsOnly700_trans)
qed

lemma addsOnly700_update: "addsOnly700 c s (update s)"
  by (simp add: update_def addsOnly700_subset timers_cleanupObjects)

lemma addsOnly700_shootAt: "addsOnly700 c s (shootAt s)"
  by (simp add: shootAt_def addsOnly700_def)

lemma addsOnly700_runCallback:
  "c = ClearInvulnerable \<or> c = NextWave \<Longrightarrow> addsOnly700 c s (runCallback k dr s)"
  by (cases k)
     (auto simp: addsOnly700_def runCallback_def spawnTick_def Let_def checkWave_def
        nextWave_def spawnWave_def shootTick_def heartTick_def spawnHeart_def)

lemma addsOnly700_oneShot: "addsOnly700 c s s' \<Longrightarrow> oneShot c s \<Longrightarrow> oneShot c s'"
  by (auto simp: addsOnly700_def oneShot_def)

lemma notDue_elapse: "notDue c T s \<Longrightarrow> notDue c (T - int dt) (elapse dt s)"
  by (auto simp: notDue_def)

lemma oneShot_elapse: "oneShot c s \<Longrightarrow> oneShot c (elapse dt s)"
  by (auto simp: oneShot_def)

lemma fire_not_fired:
  "\<not> (n < length (timers s) \<and> delay (timers s ! n) \<le> elapsed (timers s ! n)) \<Longrightarrow> fire n dr s = s"
  by (auto simp: fire_def)

lemma fire_fired:
  "n < length (timers s) \<Longrightarrow> delay (timers s ! n) \<le> elapsed (timers s ! n) \<Longrightarrow>
   fire n dr s = runCallback (cb (timers s ! n)) dr
     (if loop (timers s ! n)
      then s\<lparr>timers := (timers s)[n := (timers s ! n)\<lparr>elapsed := elapsed (timers s ! n) - delay (timers s ! n)\<rparr>]\<rparr>
      else s\<lparr>timers := take n (timers s) @ drop (Suc n) (timers s)\<rparr>)"
  by (simp add: fire_def Let_def)

lemma addsOnly700_rearm:
  assumes "cb (timers s ! n) \<noteq> c"
  shows "addsOnly700 c s (s\<lparr>timers := (timers s)[n := (timers s ! n)\<lparr>elapsed := v\<rparr>]\<rparr>)"
  unfolding addsOnly700_def
proof (intro ballI impI)
  fix t
  assume t: "t \<in> set (timers (s\<lparr>timers := (timers s)[n := (timers s ! n)\<lparr>elapsed := v\<rparr>]\<rparr>))"
    and c: "cb t = c"
  have "t = (timers s ! n)\<lparr>elapsed := v\<rparr> \<or> t \<in> set (timers s)"
    using t set_update_subset_insert [of "timers s" n "(timers s ! n)\<lparr>elapsed := v\<rparr>"]
    by auto
  moreover have "t \<noteq> (timers s ! n)\<lparr>elapsed := v\<rparr>"
    using assms c by auto
  ultimately show "t \<in> set (timers s) \<or> (elapsed t = 0 \<and> delay t = 700 \<and> \<not> loop t)"
    by simp
qed

lemma addsOnly700_drop:
  "addsOnly700 c s (s\<lparr>timers := take n (timers s) @ drop (Suc n) (timers s)\<rparr>)"
  by (auto simp: addsOnly700_def dest: in_set_takeD in_set_dropD)

lemma addsOnly700_fire:
  assumes "c = ClearInvulnerable \<or> c = NextWave"
    and "oneShot c s \<or> (notDue c T s \<and> 0 \<le> T)"
  shows "addsOnly700 c s (fire n dr s)"
proof (cases "n < length (timers s) \<and> delay (timers s ! n) \<le> elapsed (timers s ! n)")
  case False
  then show ?thesis by (simp add: fire_not_fired)
next
  case True
  let ?t = "timers s ! n"
  let ?s1 = "if loop ?t
      then s\<lparr>timers := (timers s)[n := ?t\<lparr>elapsed := elapsed ?t - delay ?t\<rparr>]\<rparr>
      else s\<lparr>timers := take n (timers s) @ drop (Suc n) (timers s)\<rparr>"
  have mem: "?t \<in> set (timers s)" using True by simp
  have "loop ?t \<Longrightarrow> cb ?t \<noteq> c"
    using assms(2) mem True by (auto simp: oneShot_def notDue_def)
  then have "addsOnly700 c s ?s1"
    by (simp add: addsOnly700_rearm addsOnly700_drop)
  moreover have "addsOnly700 c ?s1 (runCallback (cb ?t) dr ?s1)"
    using assms(1) by (rule addsOnly700_runCallback)
  ultimately have "addsOnly700 c s (runCallback (cb ?t) dr ?s1)"
    by (rule addsOnly700_trans)
  then show ?thesis using True by (simp add: fire_fired)
qed

lemma addsOnly700_step:
  assumes "c = ClearInvulnerable \<or> c = NextWave"
    and "oneShot c s \<or> (notDue c T s \<and> 0 \<le> T)"
    and "\<And>dt. ev \<noteq> Elapse dt"
  shows "addsOnly700 c s (step ev s)"
proof (cases ev)
  case (Fire n dr)
  then show ?thesis using addsOnly700_fire [OF assms(1,2)] by simp
next
  case (Elapse dt)
  then show ?thesis using assms(3) [of dt] by simp
next
  case (Move i px py)
  then show ?thesis by (simp add: addsOnly700_def)
qed (simp_all add: addsOnly700_bulletEnemy addsOnly700_bulletEnemyBullet
       addsOnly700_enemyBulletWorm addsOnly700_enemyWorm addsOnly700_bulletHeart
       addsOnly700_update addsOnly700_shootAt)

lemma elapsedTime_other: "(\<And>dt. ev \<noteq> Elapse dt) \<Longrightarrow> elapsedTime (ev # evs) = elapsedTime evs"
  by (cases ev) auto

text \<open>
  The induction behind both timing claims: a property that only the callback \<open>c\<close>
  can end holds as long as no timer with that callback is due.
\<close>

lemma notDue_run_invariant:
  assumes c: "c = ClearInvulnerable \<or> c = NextWave"
    and keep: "\<And>s ev T. Q s \<Longrightarrow> notDue c T s \<Longrightarrow> 0 \<le> T \<Longrightarrow> Q (step ev s)"
  shows "Q s \<Longrightarrow> notDue c (int (elapsedTime evs)) s \<Longrightarrow> elapsedTime evs < 700 \<Longrightarrow>
         Q (run evs s) \<and> notDue c 0 (run evs s)"
proof (induction evs arbitrary: s)
  case Nil
  then show ?case by simp
next
  case (Cons ev evs)
  have q: "Q (step ev s)"
    using keep [OF Cons.prems(1,2)] by simp
  show ?case
  proof (cases "\<exists>dt. ev = Elapse dt")
    case True
    then obtain dt where ev: "ev = Elapse dt" by blast
    have "notDue c (int (elapsedTime (ev # evs)) - int dt) (elapse dt s)"
      using Cons.prems(2) by (rule notDue_elapse)
    then have "notDue c (int (elapsedTime evs)) (step ev s)"
      by (simp add: ev)
    moreover have "elapsedTime evs < 700" using Cons.prems(3) by (simp add: ev)
    ultimately show ?thesis using Cons.IH [OF q] by simp
  next
    case False
    then have ne: "\<And>dt. ev \<noteq> Elapse dt" by blast
    have et: "elapsedTime (ev # evs) = elapsedTime evs"
      using ne by (rule elapsedTime_other)
    have "addsOnly700 c s (step ev s)"
      using addsOnly700_step [OF c _ ne, of s "int (elapsedTime (ev # evs))"] Cons.prems(2)
      by simp
    then have "notDue c (int (elapsedTime evs)) (step ev s)"
      using addsOnly700_notDue [of c s "step ev s" "int (elapsedTime evs)"] Cons.prems(2,3)
      by (simp add: et)
    moreover have "elapsedTime evs < 700" using Cons.prems(3) by (simp add: et)
    ultimately show ?thesis using Cons.IH [OF q] by simp
  qed
qed

lemma runCallback_invulnerable:
  "c \<noteq> ClearInvulnerable \<Longrightarrow> invulnerable (runCallback c dr s) = invulnerable s"
  by (cases c) (simp_all add: runCallback_def)

lemma runCallback_nextRun:
  "c \<noteq> NextWave \<Longrightarrow> nextRun (runCallback c dr s) = nextRun s"
  by (cases c) (simp_all add: runCallback_def)

lemma fire_invulnerable:
  assumes "invulnerable s" "notDue ClearInvulnerable T s" "0 \<le> T"
  shows "invulnerable (fire n dr s)"
proof (cases "n < length (timers s) \<and> delay (timers s ! n) \<le> elapsed (timers s ! n)")
  case False
  then show ?thesis using assms(1) by (simp add: fire_not_fired)
next
  case True
  then have "timers s ! n \<in> set (timers s)" by simp
  then have "cb (timers s ! n) \<noteq> ClearInvulnerable"
    using assms(2,3) True by (auto simp: notDue_def)
  then show ?thesis
    using True assms(1) by (simp add: fire_fired runCallback_invulnerable)
qed

lemma fire_nextRun:
  assumes "notDue NextWave T s" "0 \<le> T"
  shows "nextRun (fire n dr s) = nextRun s"
proof (cases "n < length (timers s) \<and> delay (timers s ! n) \<le> elapsed (timers s ! n)")
  case False
  then show ?thesis by (simp add: fire_not_fired)
next
  case True
  then have "timers s ! n \<in> set (timers s)" by simp
  then have "cb (timers s ! n) \<noteq> NextWave"
    using assms True by (auto simp: notDue_def)
  then show ?thesis
    using True by (simp add: fire_fired runCallback_nextRun)
qed

lemma loseLife_invulnerable: "invulnerable s \<Longrightarrow> invulnerable (loseLife s)"
  by (simp add: loseLife_def Let_def)

lemma step_invulnerable:
  assumes "invulnerable s" "notDue ClearInvulnerable T s" "0 \<le> T"
  shows "invulnerable (step ev s)"
proof (cases ev)
  case (Fire n dr)
  then show ?thesis using fire_invulnerable [OF assms] by simp
next
  case (EnemyWorm e)
  then show ?thesis using assms(1) by (cases e) (simp_all add: enemyWorm_def)
next
  case (EnemyBulletWorm eb)
  then show ?thesis using assms(1) by (simp add: enemyBulletWorm_def Let_def)
qed (simp_all add: assms(1))

lemma step_nextRun:
  assumes "notDue NextWave T s" "0 \<le> T"
  shows "nextRun (step ev s) = nextRun s"
proof (cases ev)
  case (Fire n dr)
  then show ?thesis using fire_nextRun [OF assms] by simp
qed simp_all

lemma run_invulnerable:
  assumes "invulnerable s" "notDue ClearInvulnerable (int (elapsedTime evs)) s"
    "elapsedTime evs < 700"
  shows "invulnerable (run evs s)"
  using notDue_run_invariant [of ClearInvulnerable invulnerable s evs] step_invulnerable assms
  by blast

lemma run_nextRun:
  assumes "notDue NextWave (int (elapsedTime evs)) s" "elapsedTime evs < 700"
  shows "nextRun (run evs s) = nextRun s"
  using notDue_run_invariant [of NextWave "\<lambda>t. nextRun t = nextRun s" s evs]
    step_nextRun assms
  by force

section \<open>Counting timers\<close>

lemma noShoot_eq [simp]:
  "noShoot (\<lambda>c. c = ClearInvulnerable)" "noShoot (\<lambda>c. c = NextWave)"
  by (simp_all add: noShoot_def)

lemma filter_noShoot:
  "noShoot p \<Longrightarrow>
   filter (\<lambda>t. p (cb t)) (filter (\<lambda>t. \<forall>i\<in>A. cb t \<noteq> ShootTick i) ts)
     = filter (\<lambda>t. p (cb t)) ts"
  by (induction ts) (auto simp: noShoot_def)

lemma pending_destroy [simp]: "noShoot p \<Longrightarrow> pending p (destroy i s) = pending p s"
  using filter_noShoot [of p "{i}" "timers s"] by (simp add: pending_def)

lemma pending_clearGroup [simp]: "noShoot p \<Longrightarrow> pending p (clearGroup g s) = pending p s"
  using filter_noShoot [of p "set g" "timers s"] by (simp add: pending_def)

lemma pending_safeDestroy [simp]: "noShoot p \<Longrightarrow> pending p (safeDestroy r s) = pending p s"
  by (cases r) (simp_all add: safeDestroy_Some, simp add: pending_def)

lemma pending_same [simp]:
  "pending p (warn m s) = pending p s"
  "pending p (addScore n s) = pending p s"
  "pending p (heal a s) = pending p s"
  "pending p (setHasHit i v s) = pending p s"
  "pending p (setIsShooter i v s) = pending p s"
  "pending p (moveTo i px py s) = pending p s"
  "pending p (createEnemy px py s) = pending p s"
  "pending p (createPlayerBullet px py s) = pending p s"
  "pending p (createEnemyBullet px py s) = pending p s"
  "pending p (createHeart px py s) = pending p s"
  "pending p (clearInvulnerable s) = pending p s"
  "pending p (shootAt s) = pending p s"
  by (simp_all add: pending_def shootAt_def)

lemma pending_elapse [simp]: "pending p (elapse dt s) = pending p s"
proof -
  have "length (filter (\<lambda>t. p (cb t)) (map (\<lambda>t. t\<lparr>elapsed := elapsed t + int dt\<rparr>) ts))
      = length (filter (\<lambda>t. p (cb t)) ts)" for ts
    by (induction ts) simp_all
  then show ?thesis by (simp add: pending_def)
qed

lemma pending_addTimer [simp]:
  "pending p (addTimer c d l s) = pending p s + (if p c then 1 else 0)"
  by (simp add: pending_def)

lemma pending_removeTimer: "\<not> p c \<Longrightarrow> pending p (removeTimer c s) = pending p s"
proof -
  assume pc: "\<not> p c"
  have "filter (\<lambda>t. p (cb t)) (filter (\<lambda>t. cb t \<noteq> c) ts) = filter (\<lambda>t. p (cb t)) ts" for ts
    using pc by (induction ts) auto
  from this [of "timers s"] show ?thesis by (simp add: pending_def del: filter_filter)
qed

lemma pending_endGame [simp]: "noShoot p \<Longrightarrow> pending p (endGame s) = pending p s"
proof -
  assume ns: "noShoot p"
  have upd: "pending p (t\<lparr>isGameOver := a, gameStarted := b\<rparr>) = pending p t" for t a b
    by (simp add: pending_def)
  show ?thesis using ns by (simp add: endGame_def Let_def upd)
qed

lemma pending_loseLife:
  "noShoot p \<Longrightarrow> pending p (loseLife s) =
     (if isGameOver s then pending p s
      else pending p s + (if p ClearInvulnerable then 1 else 0))"
proof -
  assume ns: "noShoot p"
  have u1: "pending p (t\<lparr>lives := a\<rparr>) = pending p t" for t a
    by (simp add: pending_def)
  have u2: "pending p (t\<lparr>invulnerable := a\<rparr>) = pending p t" for t a
    by (simp add: pending_def)
  show ?thesis using ns by (simp add: loseLife_def Let_def u1 u2)
qed

lemma pending_cleanChild [simp]: "noShoot p \<Longrightarrow> pending p (cleanChild g x s) = pending p s"
  by (simp add: cleanChild_def)

lemma pending_cleanLoop [simp]: "noShoot p \<Longrightarrow> pending p (cleanLoop g i s) = pending p s"
  by (rule cleanLoop_invariant) simp_all

lemma pending_update [simp]: "noShoot p \<Longrightarrow> pending p (update s) = pending p s"
  by (simp add: update_def cleanupObjects_def Let_def)

lemma pending_handlers [simp]:
  "noShoot p \<Longrightarrow> pending p (bulletEnemy b e s) = pending p s"
  "noShoot p \<Longrightarrow> pending p (bulletEnemyBullet pb eb s) = pending p s"
  "noShoot p \<Longrightarrow> pending p (bulletHeart pb h s) = pending p s"
  by (simp_all add: bulletEnemy_def bulletEnemyBullet_def bulletHeart_def Let_def)

lemma pending_rearm:
  "n < length (timers s) \<Longrightarrow>
   pending p (s\<lparr>timers := (timers s)[n := (timers s ! n)\<lparr>elapsed := v\<rparr>]\<rparr>) = pending p s"
proof -
  assume n: "n < length (timers s)"
  let ?ts = "timers s"
  have a: "?ts[n := (?ts ! n)\<lparr>elapsed := v\<rparr>] = take n ?ts @ (?ts ! n)\<lparr>elapsed := v\<rparr> # drop (Suc n) ?ts"
    using n by (rule upd_conv_take_nth_drop)
  have b: "?ts = take n ?ts @ ?ts ! n # drop (Suc n) ?ts"
    using n by (rule id_take_nth_drop)
  have "length (filter (\<lambda>t. p (cb t)) (take n ?ts @ (?ts ! n)\<lparr>elapsed := v\<rparr> # drop (Suc n) ?ts))
      = length (filter (\<lambda>t. p (cb t)) (take n ?ts @ ?ts ! n # drop (Suc n) ?ts))"
    by simp
  then show ?thesis using a b by (simp add: pending_def)
qed

lemma pending_drop:
  "n < length (timers s) \<Longrightarrow>
   pending p (s\<lparr>timers := take n (timers s) @ drop (Suc n) (timers s)\<rparr>)
     + (if p (cb (timers s ! n)) then 1 else 0) = pending p s"
proof -
  assume n: "n < length (timers s)"
  let ?ts = "timers s"
  have b: "?ts = take n ?ts @ ?ts ! n # drop (Suc n) ?ts"
    using n by (rule id_take_nth_drop)
  have "length (filter (\<lambda>t. p (cb t)) (take n ?ts @ drop (Suc n) ?ts))
          + (if p (cb (?ts ! n)) then 1 else 0)
      = length (filter (\<lambda>t. p (cb t)) (take n ?ts @ ?ts ! n # drop (Suc n) ?ts))"
    by simp
  then show ?thesis using b by (simp add: pending_def)
qed

lemma pending_runCallback_ci:
  "c \<noteq> ClearInvulnerable \<Longrightarrow>
   pending (\<lambda>c. c = ClearInvulnerable) (runCallback c dr s) = pending (\<lambda>c. c = ClearInvulnerable) s"
proof -
  have u: "pending p (t\<lparr>runs := a\<rparr>) = pending p t" for t a p
    by (simp add: pending_def)
  have v: "pending p (t\<lparr>runs := a, nextRun := b\<rparr>) = pending p t" for t a b p
    by (simp add: pending_def)
  have w: "pending p (t\<lparr>wave := a\<rparr>) = pending p t" for t a p
    by (simp add: pending_def)
  have x: "pending p (t\<lparr>enemiesPerWave := a\<rparr>) = pending p t" for t a p
    by (simp add: pending_def)
  assume "c \<noteq> ClearInvulnerable"
  then show ?thesis
    by (cases c)
       (simp_all add: runCallback_def spawnTick_def Let_def checkWave_def nextWave_def
          spawnWave_def shootTick_def heartTick_def spawnHeart_def pending_removeTimer u v w x)
qed

section \<open>Invulnerability\<close>

lemma loseLife_invulnerable_eq: "invulnerable (loseLife s) = (invulnerable s \<or> \<not> isGameOver s)"
  by (simp add: loseLife_def Let_def)

lemma pending_enemyBulletWorm:
  "noShoot p \<Longrightarrow> pending p (enemyBulletWorm eb s) =
     (if invulnerable s \<or> isGameOver s then pending p s
      else pending p s + (if p ClearInvulnerable then 1 else 0))"
  by (simp add: enemyBulletWorm_def Let_def pending_loseLife)

lemma invulnerable_enemyBulletWorm:
  "invulnerable (enemyBulletWorm eb s) = (invulnerable s \<or> \<not> isGameOver s)"
  by (auto simp: enemyBulletWorm_def Let_def loseLife_invulnerable_eq)

lemma enemyWorm_cases:
  "enemyWorm e s = s \<or>
   (\<exists>i. e = Some i \<and> \<not> invulnerable s \<and> \<not> isGameOver s \<and> active (objs s i) \<and> \<not> hasHit (objs s i)
        \<and> enemyWorm e s = safeDestroy (Some i) (loseLife (setHasHit i True s)))"
  by (cases e) (auto simp: enemyWorm_def)

lemma pending_enemyWorm_ci:
  "pending (\<lambda>c. c = ClearInvulnerable) (enemyWorm e s) \<le>
     (if invulnerable (enemyWorm e s) then 1 else 0)"
  if "pending (\<lambda>c. c = ClearInvulnerable) s \<le> (if invulnerable s then 1 else 0)"
proof -
  consider "enemyWorm e s = s"
    | i where "\<not> invulnerable s" "\<not> isGameOver s"
        "enemyWorm e s = safeDestroy (Some i) (loseLife (setHasHit i True s))"
    using enemyWorm_cases [of e s] by blast
  then show ?thesis
  proof cases
    case 1
    then show ?thesis using that by simp
  next
    case 2
    then show ?thesis
      using that by (simp add: pending_loseLife loseLife_invulnerable_eq)
  qed
qed

lemma pending_fire_ci:
  assumes "invulnTimer s"
  shows "pending (\<lambda>c. c = ClearInvulnerable) (fire n dr s) \<le>
           (if invulnerable (fire n dr s) then 1 else 0)"
proof (cases "n < length (timers s) \<and> delay (timers s ! n) \<le> elapsed (timers s ! n)")
  case False
  then show ?thesis using assms by (simp add: fire_not_fired invulnTimer_def)
next
  case True
  let ?P = "\<lambda>c. c = ClearInvulnerable"
  let ?t = "timers s ! n"
  let ?s1 = "if loop ?t
      then s\<lparr>timers := (timers s)[n := ?t\<lparr>elapsed := elapsed ?t - delay ?t\<rparr>]\<rparr>
      else s\<lparr>timers := take n (timers s) @ drop (Suc n) (timers s)\<rparr>"
  have n: "n < length (timers s)" using True by simp
  have mem: "?t \<in> set (timers s)" using n by simp
  have le: "pending ?P s \<le> (if invulnerable s then 1 else 0)"
    using assms by (simp add: invulnTimer_def)
  have inv1: "invulnerable ?s1 = invulnerable s" by simp
  have f: "fire n dr s = runCallback (cb ?t) dr ?s1"
    using True by (simp add: fire_fired)
  show ?thesis
  proof (cases "cb ?t = ClearInvulnerable")
    case True
    then have "\<not> loop ?t" using assms mem by (auto simp: invulnTimer_def oneShot_def)
    then have "pending ?P ?s1 + 1 = pending ?P s"
      using pending_drop [OF n, of ?P] True by simp
    then have "pending ?P ?s1 = 0" using le by (simp split: if_splits)
    then show ?thesis by (simp add: f True runCallback_def)
  next
    case False
    have p1: "pending ?P ?s1 = pending ?P s"
      using pending_drop [OF n, of ?P] pending_rearm [OF n, of ?P] False by simp
    have p2: "pending ?P (runCallback (cb ?t) dr ?s1) = pending ?P ?s1"
      using False by (rule pending_runCallback_ci)
    have i2: "invulnerable (runCallback (cb ?t) dr ?s1) = invulnerable ?s1"
      using False by (rule runCallback_invulnerable)
    show ?thesis
      unfolding f p2 i2 p1 inv1 by (rule le)
  qed
qed

lemma invulnTimer_step: "invulnTimer s \<Longrightarrow> invulnTimer (step ev s)"
proof -
  assume it: "invulnTimer s"
  let ?P = "\<lambda>c. c = ClearInvulnerable"
  have os: "oneShot ClearInvulnerable s" using it by (simp add: invulnTimer_def)
  have le: "pending ?P s \<le> (if invulnerable s then 1 else 0)"
    using it by (simp add: invulnTimer_def)
  have os': "oneShot ClearInvulnerable (step ev s)"
  proof (cases "\<exists>dt. ev = Elapse dt")
    case True
    then show ?thesis using os by (auto simp: oneShot_elapse)
  next
    case False
    then have "addsOnly700 ClearInvulnerable s (step ev s)"
      using addsOnly700_step [of ClearInvulnerable s 0 ev] os by blast
    then show ?thesis using os by (rule addsOnly700_oneShot)
  qed
  have le': "pending ?P (step ev s) \<le> (if invulnerable (step ev s) then 1 else 0)"
  proof (cases ev)
    case (EnemyWorm e)
    then show ?thesis using pending_enemyWorm_ci [OF le] by simp
  next
    case (EnemyBulletWorm eb)
    then show ?thesis
      using le
      by (auto simp: pending_enemyBulletWorm invulnerable_enemyBulletWorm split: if_splits)
  next
    case (Fire n dr)
    then show ?thesis using pending_fire_ci [OF it] by simp
  qed (use le in simp_all)
  show ?thesis using os' le' by (simp add: invulnTimer_def)
qed

lemma invulnTimer_run: "invulnTimer s \<Longrightarrow> invulnTimer (run evs s)"
  by (induction evs arbitrary: s) (simp_all add: invulnTimer_step)

lemma invulnTimer_startGame: "invulnTimer (startGame d created)"
  by (simp add: startGame_def created_def Let_def clearGroup_def spawnWave_def addTimer_def
        invulnTimer_def pending_def oneShot_def)

lemma pending_zero: "pending p s = 0 \<longleftrightarrow> (\<forall>t\<in>set (timers s). \<not> p (cb t))"
  by (simp add: pending_def filter_empty_conv)

lemma fresh_notDue:
  assumes "invulnTimer s" "\<not> invulnerable s" "addsOnly700 ClearInvulnerable s s'" "T < 700"
  shows "notDue ClearInvulnerable T s'"
proof -
  have "pending (\<lambda>c. c = ClearInvulnerable) s = 0"
    using assms(1,2) by (simp add: invulnTimer_def)
  then have "\<forall>t\<in>set (timers s). cb t \<noteq> ClearInvulnerable"
    by (simp add: pending_zero)
  then show ?thesis
    using assms(3,4) by (auto simp: addsOnly700_def notDue_def)
qed

lemma lasts_enemyBulletWorm:
  assumes "invulnTimer s" "\<not> invulnerable s" "\<not> isGameOver s" "elapsedTime evs < 700"
  shows "invulnerable (run evs (enemyBulletWorm eb s))"
proof -
  have "invulnerable (enemyBulletWorm eb s)"
    using assms(3) by (simp add: invulnerable_enemyBulletWorm)
  moreover have "notDue ClearInvulnerable (int (elapsedTime evs)) (enemyBulletWorm eb s)"
    using fresh_notDue [OF assms(1,2) addsOnly700_enemyBulletWorm] assms(4) by simp
  ultimately show ?thesis using assms(4) by (rule run_invulnerable)
qed

lemma lasts_enemyWorm:
  assumes "invulnTimer s" "\<not> invulnerable s" "\<not> isGameOver s"
    "active (objs s i)" "\<not> hasHit (objs s i)" "elapsedTime evs < 700"
  shows "invulnerable (run evs (enemyWorm (Some i) s))"
proof -
  have "invulnerable (enemyWorm (Some i) s)"
    using assms(2-5) by (simp add: enemyWorm_def loseLife_invulnerable_eq)
  moreover have "notDue ClearInvulnerable (int (elapsedTime evs)) (enemyWorm (Some i) s)"
    using fresh_notDue [OF assms(1,2) addsOnly700_enemyWorm] assms(6) by simp
  ultimately show ?thesis using assms(6) by (rule run_invulnerable)
qed

lemma fire_clearInvulnerable:
  "n < length (timers s) \<Longrightarrow> cb (timers s ! n) = ClearInvulnerable \<Longrightarrow>
   delay (timers s ! n) \<le> elapsed (timers s ! n) \<Longrightarrow> \<not> invulnerable (fire n dr s)"
  by (simp add: fire_fired runCallback_def)

lemma ignored_while_invulnerable:
  assumes "invulnerable s"
  shows "enemyWorm e s = s"
    and "enemyBulletWorm eb s = (if refActive eb s then safeDestroy eb s else s)"
    and "lives (enemyBulletWorm eb s) = lives s"
    and "invulnerable (enemyBulletWorm eb s)"
    and "pending (\<lambda>c. c = ClearInvulnerable) (enemyBulletWorm eb s)
         = pending (\<lambda>c. c = ClearInvulnerable) s"
  using assms
  by (cases e; simp add: enemyWorm_def enemyBulletWorm_def Let_def)+

lemma loseLife_schedules:
  "\<not> isGameOver s \<Longrightarrow>
   invulnerable (loseLife s)
   \<and> \<lparr>cb = ClearInvulnerable, delay = 700, loop = False, elapsed = 0\<rparr> \<in> set (timers (loseLife s))"
  by (simp add: loseLife_def Let_def endGame_def INVULNERABLE_MS_AFTER_HIT_def)

text \<open>
  Claim C8. While the player is invulnerable, the enemies x worm callback changes
  nothing and the enemy bullets x worm callback only hands its operand, when that is
  active, to \<open>safeDestroy\<close> (which removes a bullet and blocks the worm): the lives, the
  flag and the number of registered invulnerability timers stay as they are. Through
  every run at most one such timer is registered, and none while the player is not
  invulnerable (the invariant \<open>invulnTimer\<close>, which holds after \<open>startGame\<close>). A life
  loss in a running game sets the flag and registers a one-shot timer of 700 ms; after a
  life loss accepted by either callback the flag stays set through every run in which
  less than 700 ms pass, and the flag is cleared when that timer, once due, fires.
\<close>

theorem C8_invulnerable_ignores_life_loss:
  "(invulnerable s \<longrightarrow>
      enemyWorm e s = s
      \<and> enemyBulletWorm eb s = (if refActive eb s then safeDestroy eb s else s)
      \<and> lives (enemyBulletWorm eb s) = lives s
      \<and> invulnerable (enemyBulletWorm eb s)
      \<and> pending (\<lambda>c. c = ClearInvulnerable) (enemyBulletWorm eb s)
          = pending (\<lambda>c. c = ClearInvulnerable) s)
   \<and> (invulnTimer s \<longrightarrow>
        invulnTimer (run evs s) \<and> pending (\<lambda>c. c = ClearInvulnerable) (run evs s) \<le> 1)
   \<and> invulnTimer (startGame d created)
   \<and> (\<not> isGameOver s \<longrightarrow>
        invulnerable (loseLife s)
        \<and> \<lparr>cb = ClearInvulnerable, delay = 700, loop = False, elapsed = 0\<rparr>
            \<in> set (timers (loseLife s)))
   \<and> (invulnTimer s \<and> \<not> invulnerable s \<and> \<not> isGameOver s \<and> elapsedTime evs < 700 \<longrightarrow>
        invulnerable (run evs (enemyBulletWorm eb s)))
   \<and> (invulnTimer s \<and> \<not> invulnerable s \<and> \<not> isGameOver s \<and> active (objs s i)
        \<and> \<not> hasHit (objs s i) \<and> elapsedTime evs < 700 \<longrightarrow>
        invulnerable (run evs (enemyWorm (Some i) s)))
   \<and> (n < length (timers s) \<and> cb (timers s ! n) = ClearInvulnerable
        \<and> delay (timers s ! n) \<le> elapsed (timers s ! n) \<longrightarrow>
        \<not> invulnerable (fire n dr s))"
proof -
  have a: "invulnerable s \<longrightarrow>
      enemyWorm e s = s
      \<and> enemyBulletWorm eb s = (if refActive eb s then safeDestroy eb s else s)
      \<and> lives (enemyBulletWorm eb s) = lives s
      \<and> invulnerable (enemyBulletWorm eb s)
      \<and> pending (\<lambda>c. c = ClearInvulnerable) (enemyBulletWorm eb s)
          = pending (\<lambda>c. c = ClearInvulnerable) s"
    using ignored_while_invulnerable by fast
  have b: "invulnTimer s \<longrightarrow>
        invulnTimer (run evs s) \<and> pending (\<lambda>c. c = ClearInvulnerable) (run evs s) \<le> 1"
  proof
    assume "invulnTimer s"
    then have r: "invulnTimer (run evs s)" by (rule invulnTimer_run)
    then have "pending (\<lambda>c. c = ClearInvulnerable) (run evs s) \<le> 1"
      by (simp add: invulnTimer_def split: if_splits)
    with r show "invulnTimer (run evs s) \<and> pending (\<lambda>c. c = ClearInvulnerable) (run evs s) \<le> 1"
      by simp
  qed
  have c: "\<not> isGameOver s \<longrightarrow>
        invulnerable (loseLife s)
        \<and> \<lparr>cb = ClearInvulnerable, delay = 700, loop = False, elapsed = 0\<rparr>
            \<in> set (timers (loseLife s))"
    using loseLife_schedules [of s] by fast
  have d: "invulnTimer s \<and> \<not> invulnerable s \<and> \<not> isGameOver s \<and> elapsedTime evs < 700 \<longrightarrow>
        invulnerable (run evs (enemyBulletWorm eb s))"
    using lasts_enemyBulletWorm [of s evs eb] by fast
  have e: "invulnTimer s \<and> \<not> invulnerable s \<and> \<not> isGameOver s \<and> active (objs s i)
        \<and> \<not> hasHit (objs s i) \<and> elapsedTime evs < 700 \<longrightarrow>
        invulnerable (run evs (enemyWorm (Some i) s))"
    using lasts_enemyWorm [of s i evs] by fast
  have f: "n < length (timers s) \<and> cb (timers s ! n) = ClearInvulnerable
        \<and> delay (timers s ! n) \<le> elapsed (timers s ! n) \<longrightarrow>
        \<not> invulnerable (fire n dr s)"
    using fire_clearInvulnerable [of n s dr] by fast
  show ?thesis
    using a b c d e f invulnTimer_startGame [of d] by (intro conjI)
qed

lemmas timer_eval =
  scene_eval waveCleared_def checkWave_def countActive_def spawnTick_def nextWave_def
  fire_def elapse_def runCallback_def clearInvulnerable_def notDue_def invulnTimer_def
  pending_def oneShot_def


text \<open>
  The statement at \<open>battle\<close>: enemy 1 hits (the timer is the fourth registered one);
  while invulnerable the player is overlapped by enemy 2 and by enemy bullet 4, 699 ms
  pass; and after 700 ms the timer fires.
\<close>

theorem C8_invulnerable_ignores_life_loss_witness:
  "invulnTimer battle \<and> \<not> invulnerable battle \<and> \<not> isGameOver battle
   \<and> active (objs battle 1) \<and> \<not> hasHit (objs battle 1)
   \<and> elapsedTime [EnemyWorm (Some 2), Elapse 699, EnemyBulletWorm (Some 4)] < 700
   \<and> invulnerable (enemyWorm (Some 1) battle)
   \<and> invulnerable (run [EnemyWorm (Some 2), Elapse 699, EnemyBulletWorm (Some 4)]
        (enemyWorm (Some 1) battle))
   \<and> invulnerable (run [EnemyWorm (Some 2), Elapse 699, EnemyBulletWorm (Some 4)]
        (enemyBulletWorm (Some 4) battle))
   \<and> enemyWorm (Some 2) (enemyWorm (Some 1) battle) = enemyWorm (Some 1) battle
   \<and> lives (enemyBulletWorm (Some 4) (enemyWorm (Some 1) battle)) = 2
   \<and> pending (\<lambda>c. c = ClearInvulnerable) (run [EnemyWorm (Some 1), EnemyWorm (Some 2)] battle) \<le> 1
   \<and> 3 < length (timers (elapse 700 (enemyWorm (Some 1) battle)))
   \<and> cb (timers (elapse 700 (enemyWorm (Some 1) battle)) ! 3) = ClearInvulnerable
   \<and> delay (timers (elapse 700 (enemyWorm (Some 1) battle)) ! 3)
       \<le> elapsed (timers (elapse 700 (enemyWorm (Some 1) battle)) ! 3)
   \<and> \<not> invulnerable (fire 3 \<lparr>drawY = 0, drawChance = 0, drawDelay = 0\<rparr>
          (elapse 700 (enemyWorm (Some 1) battle)))"
proof -
  let ?evs = "[EnemyWorm (Some 2), Elapse 699, EnemyBulletWorm (Some 4)]"
  let ?dr = "\<lparr>drawY = 0, drawChance = 0, drawDelay = 0\<rparr>"
  have h1: "invulnTimer battle \<and> \<not> invulnerable battle \<and> \<not> isGameOver battle
   \<and> active (objs battle 1) \<and> \<not> hasHit (objs battle 1) \<and> elapsedTime ?evs < 700"
    by (simp add: timer_eval)
  have h2: "invulnerable (enemyWorm (Some 1) battle)
    \<and> lives (enemyWorm (Some 1) battle) = 2"
    by (simp add: timer_eval)
  have h3: "3 < length (timers (elapse 700 (enemyWorm (Some 1) battle)))
   \<and> cb (timers (elapse 700 (enemyWorm (Some 1) battle)) ! 3) = ClearInvulnerable
   \<and> delay (timers (elapse 700 (enemyWorm (Some 1) battle)) ! 3)
       \<le> elapsed (timers (elapse 700 (enemyWorm (Some 1) battle)) ! 3)"
    by (simp add: timer_eval)
  have c1: "pending (\<lambda>c. c = ClearInvulnerable)
              (run [EnemyWorm (Some 1), EnemyWorm (Some 2)] battle) \<le> 1"
    using h1 C8_invulnerable_ignores_life_loss [of battle "Some 2" "Some 4"
        "[EnemyWorm (Some 1), EnemyWorm (Some 2)]" 7000 1 3 ?dr]
    by blast
  have c2: "invulnerable (run ?evs (enemyWorm (Some 1) battle))
    \<and> invulnerable (run ?evs (enemyBulletWorm (Some 4) battle))"
    using h1 C8_invulnerable_ignores_life_loss [of battle "Some 2" "Some 4" ?evs 7000 1 3 ?dr]
    by blast
  have c3: "enemyWorm (Some 2) (enemyWorm (Some 1) battle) = enemyWorm (Some 1) battle
    \<and> lives (enemyBulletWorm (Some 4) (enemyWorm (Some 1) battle))
        = lives (enemyWorm (Some 1) battle)"
    using h2 C8_invulnerable_ignores_life_loss [of "enemyWorm (Some 1) battle" "Some 2" "Some 4"
        ?evs 7000 1 3 ?dr]
    by blast
  have c4: "\<not> invulnerable (fire 3 ?dr (elapse 700 (enemyWorm (Some 1) battle)))"
    using h3 C8_invulnerable_ignores_life_loss [of "elapse 700 (enemyWorm (Some 1) battle)"
        "Some 2" "Some 4" ?evs 7000 1 3 ?dr]
    by blast
  show ?thesis
    using h1 h2 h3 c1 c2 c3 c4 by (simp only: simp_thms)
qed

section \<open>One wave timer at a time\<close>

lemma noShoot_isWaveTimer [simp]: "noShoot isWaveTimer"
  by (simp add: noShoot_def)

lemma pending_enemyWorm:
  "noShoot p \<Longrightarrow> \<not> p ClearInvulnerable \<Longrightarrow> pending p (enemyWorm e s) = pending p s"
  using enemyWorm_cases [of e s] by (auto simp: pending_loseLife)

lemma pending_removeTimer_le: "pending p (removeTimer c s) \<le> pending p s"
proof -
  have "length (filter (\<lambda>t. p (cb t)) (filter (\<lambda>t. cb t \<noteq> c) ts))
          \<le> length (filter (\<lambda>t. p (cb t)) ts)" for ts
    by (induction ts) auto
  from this [of "timers s"] show ?thesis by (simp add: pending_def del: filter_filter)
qed

lemma pending_removeTimer_less:
  assumes "t \<in> set (timers s)" "cb t = c" "p c"
  shows "pending p (removeTimer c s) < pending p s"
proof -
  have "t \<in> set ts \<Longrightarrow>
        length (filter (\<lambda>t. p (cb t)) (filter (\<lambda>t. cb t \<noteq> c) ts))
          < length (filter (\<lambda>t. p (cb t)) ts)" for ts
  proof (induction ts)
    case Nil
    then show ?case by simp
  next
    case (Cons a ts)
    have le: "length (filter (\<lambda>t. p (cb t)) (filter (\<lambda>t. cb t \<noteq> c) ts))
          \<le> length (filter (\<lambda>t. p (cb t)) ts)"
      by (induction ts) auto
    show ?case
    proof (cases "cb a = c")
      case True
      then show ?thesis using le assms(3) by (simp del: filter_filter)
    next
      case False
      then have "t \<in> set ts" using Cons.prems assms(2) by auto
      then show ?thesis using Cons.IH False by (simp del: filter_filter)
    qed
  qed
  from this [of "timers s"] assms(1) show ?thesis
    by (simp add: pending_def del: filter_filter)
qed

lemma pending_spawnWave:
  "pending isWaveTimer (spawnWave s)
     = pending isWaveTimer s + (if \<not> gameStarted s \<or> isGameOver s then 0 else 1)"
proof -
  have u: "pending p (t\<lparr>runs := a, nextRun := b\<rparr>) = pending p t" for t a b p
    by (simp add: pending_def)
  show ?thesis by (simp add: spawnWave_def Let_def u)
qed

lemma pending_spawnTick: "pending isWaveTimer (spawnTick k dr s) = pending isWaveTimer s"
proof -
  have u: "pending p (t\<lparr>runs := a\<rparr>) = pending p t" for t a p
    by (simp add: pending_def)
  show ?thesis by (simp add: spawnTick_def Let_def u pending_removeTimer)
qed

lemma pending_shootTick: "pending isWaveTimer (shootTick e s) = pending isWaveTimer s"
  by (simp add: shootTick_def pending_removeTimer)

lemma pending_heartTick: "pending isWaveTimer (heartTick dr s) = pending isWaveTimer s"
  by (simp add: heartTick_def spawnHeart_def)

lemma pending_checkWave_stay:
  "pending isWaveTimer (checkWave k s) \<le> pending isWaveTimer s
   \<or> (\<not> isGameOver s
      \<and> pending isWaveTimer (checkWave k s)
          = pending isWaveTimer (removeTimer (CheckWave k) s) + 1)"
proof -
  have w: "pending p (t\<lparr>wave := a\<rparr>) = pending p t" for t a p
    by (simp add: pending_def)
  have x: "pending p (t\<lparr>enemiesPerWave := a\<rparr>) = pending p t" for t a p
    by (simp add: pending_def)
  show ?thesis
    by (simp add: checkWave_def Let_def w x pending_removeTimer_le)
qed

lemma filter_le_one_unique:
  "length (filter P xs) \<le> 1 \<Longrightarrow> x \<in> set xs \<Longrightarrow> y \<in> set xs \<Longrightarrow> P x \<Longrightarrow> P y \<Longrightarrow> x = y"
proof (induction xs)
  case Nil
  then show ?case by simp
next
  case (Cons a xs)
  show ?case
  proof (cases "P a")
    case True
    then have "filter P xs = []" using Cons.prems(1) by simp
    then have "\<forall>z\<in>set xs. \<not> P z" by (simp add: filter_empty_conv)
    then show ?thesis using Cons.prems by auto
  next
    case False
    then show ?thesis using Cons by auto
  qed
qed

lemma wavePhase_check_no_nextWave:
  assumes "wavePhase s" "n < length (timers s)" "cb (timers s ! n) = CheckWave k"
  shows "\<forall>t\<in>set (timers s). cb t \<noteq> NextWave"
proof
  fix t
  assume t: "t \<in> set (timers s)"
  show "cb t \<noteq> NextWave"
  proof
    assume nw: "cb t = NextWave"
    have "length (filter (\<lambda>t. isWaveTimer (cb t)) (timers s)) \<le> 1"
      using assms(1) by (simp add: wavePhase_def pending_def)
    moreover have "timers s ! n \<in> set (timers s)" using assms(2) by simp
    ultimately have "timers s ! n = t"
      using t nw assms(3) filter_le_one_unique [of "\<lambda>t. isWaveTimer (cb t)" "timers s" "timers s ! n" t]
      by simp
    then show False using nw assms(3) by simp
  qed
qed

lemma pending_wave_fire:
  assumes "wavePhase s"
  shows "pending isWaveTimer (fire n dr s) \<le> 1"
proof (cases "n < length (timers s) \<and> delay (timers s ! n) \<le> elapsed (timers s ! n)")
  case False
  then show ?thesis using assms by (simp add: fire_not_fired wavePhase_def)
next
  case True
  let ?t = "timers s ! n"
  let ?re = "s\<lparr>timers := (timers s)[n := ?t\<lparr>elapsed := elapsed ?t - delay ?t\<rparr>]\<rparr>"
  let ?dr = "s\<lparr>timers := take n (timers s) @ drop (Suc n) (timers s)\<rparr>"
  let ?s1 = "if loop ?t then ?re else ?dr"
  have n: "n < length (timers s)" using True by simp
  have le: "pending isWaveTimer s \<le> 1" using assms by (simp add: wavePhase_def)
  have f: "fire n dr s = runCallback (cb ?t) dr ?s1"
    using True by (simp add: fire_fired)
  have re: "pending isWaveTimer ?re = pending isWaveTimer s"
    using n by (rule pending_rearm)
  have dr: "pending isWaveTimer ?dr + (if isWaveTimer (cb ?t) then 1 else 0) = pending isWaveTimer s"
    using n by (rule pending_drop)
  have le1: "pending isWaveTimer ?s1 \<le> 1" using re dr le by simp
  show ?thesis
  proof (cases "cb ?t")
    case ClearInvulnerable
    then show ?thesis using le1 by (simp only: f runCallback_def callback.case pending_same)
  next
    case (SpawnTick k)
    then show ?thesis using le1 by (simp only: f runCallback_def callback.case pending_spawnTick)
  next
    case (ShootTick e)
    then show ?thesis using le1 by (simp only: f runCallback_def callback.case pending_shootTick)
  next
    case HeartTick
    then show ?thesis using le1 by (simp only: f runCallback_def callback.case pending_heartTick)
  next
    case (CheckWave k)
    have rm: "pending isWaveTimer (removeTimer (CheckWave k) ?s1) = 0"
    proof (cases "loop ?t")
      case True
      have "?re\<lparr>timers := timers ?re\<rparr> = ?re" by simp
      have mem: "?t\<lparr>elapsed := elapsed ?t - delay ?t\<rparr> \<in> set (timers ?re)"
        using n by (simp add: set_update_memI)
      have "pending isWaveTimer (removeTimer (CheckWave k) ?re) < pending isWaveTimer ?re"
        using mem CheckWave
        by (intro pending_removeTimer_less [of "?t\<lparr>elapsed := elapsed ?t - delay ?t\<rparr>"]) simp_all
      then have "pending isWaveTimer (removeTimer (CheckWave k) ?re) = 0"
        using re le by simp
      then show ?thesis using True by simp
    next
      case False
      have "pending isWaveTimer ?dr = 0" using dr le CheckWave by simp
      moreover have "pending isWaveTimer (removeTimer (CheckWave k) ?dr) \<le> pending isWaveTimer ?dr"
        by (rule pending_removeTimer_le)
      ultimately have "pending isWaveTimer (removeTimer (CheckWave k) ?dr) = 0" by simp
      then show ?thesis using False by simp
    qed
    have "pending isWaveTimer (checkWave k ?s1) \<le> 1"
      using pending_checkWave_stay [of k ?s1] rm le1 by linarith
    then show ?thesis using CheckWave by (simp only: f runCallback_def callback.case)
  next
    case NextWave
    have "?t \<in> set (timers s)" using n by simp
    then have nl: "\<not> loop ?t" using assms NextWave by (auto simp: wavePhase_def oneShot_def)
    have z: "pending isWaveTimer ?dr = 0" using dr le NextWave by simp
    have "pending isWaveTimer (nextWave ?dr) \<le> 1"
      using z by (simp add: nextWave_def pending_spawnWave)
    then show ?thesis using NextWave nl by (simp only: f runCallback_def callback.case if_False)
  qed
qed

lemma wavePhase_step: "wavePhase s \<Longrightarrow> wavePhase (step ev s)"
proof -
  assume wp: "wavePhase s"
  have os: "oneShot NextWave s" using wp by (simp add: wavePhase_def)
  have le: "pending isWaveTimer s \<le> 1" using wp by (simp add: wavePhase_def)
  have os': "oneShot NextWave (step ev s)"
  proof (cases "\<exists>dt. ev = Elapse dt")
    case True
    then show ?thesis using os by (auto simp: oneShot_elapse)
  next
    case False
    then have "addsOnly700 NextWave s (step ev s)"
      using addsOnly700_step [of NextWave s 0 ev] os by blast
    then show ?thesis using os by (rule addsOnly700_oneShot)
  qed
  have le': "pending isWaveTimer (step ev s) \<le> 1"
  proof (cases ev)
    case (EnemyWorm e)
    then show ?thesis using le by (simp add: pending_enemyWorm)
  next
    case (EnemyBulletWorm eb)
    then show ?thesis using le by (simp add: pending_enemyBulletWorm)
  next
    case (Fire n dr)
    then show ?thesis using pending_wave_fire [OF wp] by simp
  qed (use le in simp_all)
  show ?thesis using os' le' by (simp add: wavePhase_def)
qed

lemma wavePhase_run: "wavePhase s \<Longrightarrow> wavePhase (run evs s)"
  by (induction evs arbitrary: s) (simp_all add: wavePhase_step)

lemma wavePhase_startGame: "wavePhase (startGame d created)"
  by (simp add: startGame_def created_def Let_def clearGroup_def spawnWave_def addTimer_def
        wavePhase_def pending_def oneShot_def)

lemma no_wave_after_check:
  assumes "wavePhase s" "n < length (timers s)" "cb (timers s ! n) = CheckWave k"
    "elapsedTime evs < 700"
  shows "nextRun (run evs (fire n dr s)) = nextRun s"
proof -
  have nonw: "\<forall>t\<in>set (timers s). cb t \<noteq> NextWave"
    using assms(1-3) by (rule wavePhase_check_no_nextWave)
  then have "notDue NextWave 0 s" by (simp add: notDue_def)
  then have nr: "nextRun (fire n dr s) = nextRun s" by (rule fire_nextRun) simp
  have "oneShot NextWave s" using assms(1) by (simp add: wavePhase_def)
  then have "addsOnly700 NextWave s (fire n dr s)"
    using addsOnly700_fire [of NextWave s 0 n dr] by simp
  then have "notDue NextWave (int (elapsedTime evs)) (fire n dr s)"
    using nonw assms(4) by (auto simp: addsOnly700_def notDue_def)
  then have "nextRun (run evs (fire n dr s)) = nextRun (fire n dr s)"
    using assms(4) by (rule run_nextRun)
  then show ?thesis using nr by simp
qed

section \<open>Wave progression\<close>

lemma spawnWave_started:
  "gameStarted s \<Longrightarrow> \<not> isGameOver s \<Longrightarrow>
   timers (spawnWave s) = timers s @
     [\<lparr>cb = SpawnTick (nextRun s), delay = spawnDelay (wave s), loop = True, elapsed = 0\<rparr>,
      \<lparr>cb = CheckWave (nextRun s), delay = 500, loop = True, elapsed = 0\<rparr>]
   \<and> runs (spawnWave s) (nextRun s) = \<lparr>count = enemiesPerWave s, spawned = 0\<rparr>
   \<and> nextRun (spawnWave s) = Suc (nextRun s)"
  by (simp add: spawnWave_def Let_def addTimer_def)

lemma checkWave_advance:
  "\<not> isGameOver s \<Longrightarrow> count (runs s k) \<le> spawned (runs s k) \<Longrightarrow>
   countActive (enemies s) s = 0 \<Longrightarrow>
   wave (checkWave k s) = wave s + 1
   \<and> enemiesPerWave (checkWave k s) = min 12 (enemiesPerWave s + 1)
   \<and> timers (checkWave k s) = filter (\<lambda>t. cb t \<noteq> CheckWave k) (timers s)
        @ [\<lparr>cb = NextWave, delay = 700, loop = False, elapsed = 0\<rparr>]
   \<and> nextRun (checkWave k s) = nextRun s"
  by (simp add: checkWave_def Let_def)

lemma checkWave_wait:
  assumes "\<not> isGameOver s"
    and "\<not> (count (runs s k) \<le> spawned (runs s k) \<and> countActive (enemies s) s = 0)"
  shows "checkWave k s = s"
proof -
  have "(if count (runs s k) \<le> spawned (runs s k) \<and> countActive (enemies s) s = 0
         then x else s) = s" for x
    using assms(2) by (rule if_not_P)
  then show ?thesis
    using assms(1) unfolding checkWave_def by (simp only: if_False)
qed

lemma spawnTick_spawns:
  "\<not> isGameOver s \<Longrightarrow> spawned (runs s k) < count (runs s k) \<Longrightarrow>
   spawned (runs (spawnTick k dr s) k) = spawned (runs s k) + 1
   \<and> enemies (spawnTick k dr s) = enemies s @ [nextId s]"
  by (simp add: spawnTick_def Let_def)

lemma spawnTick_stops:
  "isGameOver s \<or> count (runs s k) \<le> spawned (runs s k) \<Longrightarrow>
   spawnTick k dr s = removeTimer (SpawnTick k) s"
  by (auto simp: spawnTick_def)

lemma no_nextWave_before_700:
  assumes "\<forall>t\<in>set (timers s). cb t \<noteq> NextWave" "elapsedTime evs < 700"
  shows "nextRun (run evs (checkWave k s)) = nextRun s"
proof -
  have "addsOnly700 NextWave s (runCallback (CheckWave k) dr s)" for dr
    by (simp add: addsOnly700_runCallback)
  then have "addsOnly700 NextWave s (checkWave k s)"
    by (simp add: runCallback_def)
  then have "notDue NextWave (int (elapsedTime evs)) (checkWave k s)"
    using assms by (auto simp: addsOnly700_def notDue_def)
  then have "nextRun (run evs (checkWave k s)) = nextRun (checkWave k s)"
    using assms(2) by (rule run_nextRun)
  then show ?thesis by simp
qed

lemma fire_nextWave:
  "n < length (timers s) \<Longrightarrow> cb (timers s ! n) = NextWave \<Longrightarrow> \<not> loop (timers s ! n) \<Longrightarrow>
   delay (timers s ! n) \<le> elapsed (timers s ! n) \<Longrightarrow>
   fire n dr s = nextWave (s\<lparr>timers := take n (timers s) @ drop (Suc n) (timers s)\<rparr>)"
  by (simp add: fire_fired runCallback_def)

text \<open>
  Claim C7. The spawn interval of wave \<open>w\<close> is \<open>max 220 (900 - min (w * 60) 600)\<close>,
  which is 840 at wave 1, and \<open>spawnWave\<close> in a running game registers the repeating
  spawn timer with that delay and the repeating 500 ms check timer, with the quota
  \<open>enemiesPerWave\<close> and nothing spawned yet. The spawn callback creates one enemy and
  counts it while the quota is not reached, and removes its timer once it is. The check
  callback, in a game that is not over, does nothing until the quota is spawned and no
  enemy is active; then it adds 1 to \<open>wave\<close>, sets \<open>enemiesPerWave\<close> to
  \<open>min 12 (enemiesPerWave + 1)\<close>, removes its timer and registers a one-shot timer of
  700 ms. No call of \<open>spawnWave\<close> takes effect in a run during which every registered
  next-wave timer has time to go; so after the check callback, from a scene with no
  next-wave timer, none does in less than 700 ms. When the next-wave timer fires it calls
  \<open>spawnWave\<close> unless the game is over, and \<open>spawnWave\<close> changes nothing once the
  game is over. After \<open>startGame\<close> and through every run at most one timer of the
  wave cycle is registered (\<open>wavePhase\<close>); so whenever a check timer fires, no
  \<open>spawnWave\<close> takes effect in the next 700 ms.
\<close>

theorem C7_wave_progression:
  "spawnDelay w = max 220 (900 - min (w * 60) 600)
   \<and> spawnDelay 1 = 840
   \<and> (gameStarted s \<and> \<not> isGameOver s \<longrightarrow>
        timers (spawnWave s) = timers s @
          [\<lparr>cb = SpawnTick (nextRun s), delay = spawnDelay (wave s), loop = True, elapsed = 0\<rparr>,
           \<lparr>cb = CheckWave (nextRun s), delay = 500, loop = True, elapsed = 0\<rparr>]
        \<and> runs (spawnWave s) (nextRun s) = \<lparr>count = enemiesPerWave s, spawned = 0\<rparr>
        \<and> nextRun (spawnWave s) = Suc (nextRun s))
   \<and> (\<not> isGameOver s \<and> spawned (runs s k) < count (runs s k) \<longrightarrow>
        spawned (runs (spawnTick k dr s) k) = spawned (runs s k) + 1
        \<and> enemies (spawnTick k dr s) = enemies s @ [nextId s])
   \<and> (isGameOver s \<or> count (runs s k) \<le> spawned (runs s k) \<longrightarrow>
        spawnTick k dr s = removeTimer (SpawnTick k) s)
   \<and> (\<not> isGameOver s \<and> count (runs s k) \<le> spawned (runs s k)
        \<and> countActive (enemies s) s = 0 \<longrightarrow>
        wave (checkWave k s) = wave s + 1
        \<and> enemiesPerWave (checkWave k s) = min 12 (enemiesPerWave s + 1)
        \<and> timers (checkWave k s) = filter (\<lambda>t. cb t \<noteq> CheckWave k) (timers s)
             @ [\<lparr>cb = NextWave, delay = 700, loop = False, elapsed = 0\<rparr>]
        \<and> nextRun (checkWave k s) = nextRun s)
   \<and> (\<not> isGameOver s
        \<and> \<not> (count (runs s k) \<le> spawned (runs s k) \<and> countActive (enemies s) s = 0) \<longrightarrow>
        checkWave k s = s)
   \<and> (notDue NextWave (int (elapsedTime evs)) s \<and> elapsedTime evs < 700 \<longrightarrow>
        nextRun (run evs s) = nextRun s)
   \<and> ((\<forall>t\<in>set (timers s). cb t \<noteq> NextWave) \<and> elapsedTime evs < 700 \<longrightarrow>
        nextRun (run evs (checkWave k s)) = nextRun s)
   \<and> (n < length (timers s) \<and> cb (timers s ! n) = NextWave \<and> \<not> loop (timers s ! n)
        \<and> delay (timers s ! n) \<le> elapsed (timers s ! n) \<longrightarrow>
        fire n dr s = nextWave (s\<lparr>timers := take n (timers s) @ drop (Suc n) (timers s)\<rparr>))
   \<and> nextWave s = (if isGameOver s then s else spawnWave s)
   \<and> (isGameOver s \<longrightarrow> spawnWave s = s)
   \<and> (wavePhase s \<longrightarrow> wavePhase (run evs s))
   \<and> (wavePhase s \<and> n < length (timers s) \<and> cb (timers s ! n) = CheckWave k
        \<and> elapsedTime evs < 700 \<longrightarrow>
        nextRun (run evs (fire n dr s)) = nextRun s)
   \<and> wavePhase (startGame d created)"
proof -
  have a: "spawnDelay w = max 220 (900 - min (w * 60) 600)" "spawnDelay 1 = 840"
    by (simp_all add: spawnDelay_def)
  have b: "gameStarted s \<and> \<not> isGameOver s \<longrightarrow>
        timers (spawnWave s) = timers s @
          [\<lparr>cb = SpawnTick (nextRun s), delay = spawnDelay (wave s), loop = True, elapsed = 0\<rparr>,
           \<lparr>cb = CheckWave (nextRun s), delay = 500, loop = True, elapsed = 0\<rparr>]
        \<and> runs (spawnWave s) (nextRun s) = \<lparr>count = enemiesPerWave s, spawned = 0\<rparr>
        \<and> nextRun (spawnWave s) = Suc (nextRun s)"
    by (intro impI, elim conjE) (rule spawnWave_started, assumption+)
  have c: "\<not> isGameOver s \<and> spawned (runs s k) < count (runs s k) \<longrightarrow>
        spawned (runs (spawnTick k dr s) k) = spawned (runs s k) + 1
        \<and> enemies (spawnTick k dr s) = enemies s @ [nextId s]"
    by (intro impI, elim conjE) (rule spawnTick_spawns, assumption+)
  have d: "isGameOver s \<or> count (runs s k) \<le> spawned (runs s k) \<longrightarrow>
        spawnTick k dr s = removeTimer (SpawnTick k) s"
    by (rule impI) (rule spawnTick_stops, assumption)
  have e: "\<not> isGameOver s \<and> count (runs s k) \<le> spawned (runs s k)
        \<and> countActive (enemies s) s = 0 \<longrightarrow>
        wave (checkWave k s) = wave s + 1
        \<and> enemiesPerWave (checkWave k s) = min 12 (enemiesPerWave s + 1)
        \<and> timers (checkWave k s) = filter (\<lambda>t. cb t \<noteq> CheckWave k) (timers s)
             @ [\<lparr>cb = NextWave, delay = 700, loop = False, elapsed = 0\<rparr>]
        \<and> nextRun (checkWave k s) = nextRun s"
    by (intro impI, elim conjE) (rule checkWave_advance, assumption+)
  have f: "\<not> isGameOver s
        \<and> \<not> (count (runs s k) \<le> spawned (runs s k) \<and> countActive (enemies s) s = 0) \<longrightarrow>
        checkWave k s = s"
    by (intro impI, elim conjE) (rule checkWave_wait, assumption+)
  have g: "notDue NextWave (int (elapsedTime evs)) s \<and> elapsedTime evs < 700 \<longrightarrow>
        nextRun (run evs s) = nextRun s"
    by (intro impI, elim conjE) (rule run_nextRun, assumption+)
  have h: "(\<forall>t\<in>set (timers s). cb t \<noteq> NextWave) \<and> elapsedTime evs < 700 \<longrightarrow>
        nextRun (run evs (checkWave k s)) = nextRun s"
    by (intro impI, elim conjE) (rule no_nextWave_before_700, assumption+)
  have i: "n < length (timers s) \<and> cb (timers s ! n) = NextWave \<and> \<not> loop (timers s ! n)
        \<and> delay (timers s ! n) \<le> elapsed (timers s ! n) \<longrightarrow>
        fire n dr s = nextWave (s\<lparr>timers := take n (timers s) @ drop (Suc n) (timers s)\<rparr>)"
    by (intro impI, elim conjE) (rule fire_nextWave, assumption+)
  have j: "nextWave s = (if isGameOver s then s else spawnWave s)"
    by (simp add: nextWave_def)
  have k: "isGameOver s \<longrightarrow> spawnWave s = s"
    by (simp add: spawnWave_def)
  have l: "wavePhase s \<longrightarrow> wavePhase (run evs s)"
    by (rule impI) (rule wavePhase_run)
  have m: "wavePhase s \<and> n < length (timers s) \<and> cb (timers s ! n) = CheckWave k
        \<and> elapsedTime evs < 700 \<longrightarrow>
        nextRun (run evs (fire n dr s)) = nextRun s"
    by (intro impI, elim conjE) (rule no_wave_after_check, assumption+)
  show ?thesis
    using a b c d e f g h i j k l m wavePhase_startGame [of d] by (intro conjI)
qed

text \<open>
  The statement at \<open>waveCleared\<close> (wave 1 is over: the check callback advances to wave
  2 with a quota of 5, and no wave starts within 699 ms), at the started game (the check
  callback waits, the spawn callback spawns), at the scene 700 ms later (the next-wave
  timer, the third registered one, fires) and at a game that is over.
\<close>

theorem C7_wave_progression_witness:
  "(gameStarted waveCleared \<and> \<not> isGameOver waveCleared)
   \<and> nextRun (spawnWave waveCleared) = Suc (nextRun waveCleared)
   \<and> (isGameOver waveCleared
        \<or> count (runs waveCleared 0) \<le> spawned (runs waveCleared 0))
   \<and> spawnTick 0 \<lparr>drawY = 100, drawChance = 0, drawDelay = 1500\<rparr> waveCleared = removeTimer (SpawnTick 0) waveCleared
   \<and> (\<not> isGameOver waveCleared \<and> count (runs waveCleared 0) \<le> spawned (runs waveCleared 0)
        \<and> countActive (enemies waveCleared) waveCleared = 0)
   \<and> wave waveCleared = 1 \<and> enemiesPerWave waveCleared = 4
   \<and> wave (checkWave 0 waveCleared) = 2
   \<and> enemiesPerWave (checkWave 0 waveCleared) = 5
   \<and> map cb (timers waveCleared) = [HeartTick, SpawnTick 0, CheckWave 0]
   \<and> elapsedTime [Elapse 699, Fire 2 \<lparr>drawY = 100, drawChance = 0, drawDelay = 1500\<rparr>] < 700
   \<and> nextRun (run [Elapse 699, Fire 2 \<lparr>drawY = 100, drawChance = 0, drawDelay = 1500\<rparr>] (checkWave 0 waveCleared)) = nextRun waveCleared
   \<and> (notDue NextWave (int (elapsedTime [Elapse 699, Fire 2 \<lparr>drawY = 100, drawChance = 0, drawDelay = 1500\<rparr>])) (checkWave 0 waveCleared)
        \<and> elapsedTime [Elapse 699, Fire 2 \<lparr>drawY = 100, drawChance = 0, drawDelay = 1500\<rparr>] < 700)
   \<and> nextRun (run [Elapse 699, Fire 2 \<lparr>drawY = 100, drawChance = 0, drawDelay = 1500\<rparr>] (checkWave 0 waveCleared))
       = nextRun (checkWave 0 waveCleared)
   \<and> (\<not> isGameOver (startGame 7000 created)
        \<and> spawned (runs (startGame 7000 created) 0) < count (runs (startGame 7000 created) 0))
   \<and> enemies (spawnTick 0 \<lparr>drawY = 100, drawChance = 0, drawDelay = 1500\<rparr> (startGame 7000 created))
       = enemies (startGame 7000 created) @ [nextId (startGame 7000 created)]
   \<and> (\<not> isGameOver (startGame 7000 created)
        \<and> \<not> (count (runs (startGame 7000 created) 0) \<le> spawned (runs (startGame 7000 created) 0)
             \<and> countActive (enemies (startGame 7000 created)) (startGame 7000 created) = 0))
   \<and> checkWave 0 (startGame 7000 created) = startGame 7000 created
   \<and> (2 < length (timers (elapse 700 (checkWave 0 waveCleared)))
        \<and> cb (timers (elapse 700 (checkWave 0 waveCleared)) ! 2) = NextWave
        \<and> \<not> loop (timers (elapse 700 (checkWave 0 waveCleared)) ! 2)
        \<and> delay (timers (elapse 700 (checkWave 0 waveCleared)) ! 2)
            \<le> elapsed (timers (elapse 700 (checkWave 0 waveCleared)) ! 2))
   \<and> fire 2 \<lparr>drawY = 100, drawChance = 0, drawDelay = 1500\<rparr> (elapse 700 (checkWave 0 waveCleared))
       = nextWave ((elapse 700 (checkWave 0 waveCleared))
           \<lparr>timers := take 2 (timers (elapse 700 (checkWave 0 waveCleared)))
                       @ drop (Suc 2) (timers (elapse 700 (checkWave 0 waveCleared)))\<rparr>)
   \<and> isGameOver (endGame waveCleared)
   \<and> spawnWave (endGame waveCleared) = endGame waveCleared
   \<and> wavePhase waveCleared
   \<and> wavePhase (run [Elapse 699, Fire 2 \<lparr>drawY = 100, drawChance = 0, drawDelay = 1500\<rparr>] waveCleared)
   \<and> (wavePhase (elapse 500 waveCleared) \<and> 2 < length (timers (elapse 500 waveCleared))
        \<and> cb (timers (elapse 500 waveCleared) ! 2) = CheckWave 0
        \<and> elapsedTime [Elapse 699, Fire 2 \<lparr>drawY = 100, drawChance = 0, drawDelay = 1500\<rparr>] < 700)
   \<and> nextRun (run [Elapse 699, Fire 2 \<lparr>drawY = 100, drawChance = 0, drawDelay = 1500\<rparr>] (fire 2 \<lparr>drawY = 100, drawChance = 0, drawDelay = 1500\<rparr> (elapse 500 waveCleared)))
       = nextRun (elapse 500 waveCleared)"
proof -
  let ?dr = "\<lparr>drawY = 100, drawChance = 0, drawDelay = 1500\<rparr>"
  let ?evs = "[Elapse 699, Fire 2 \<lparr>drawY = 100, drawChance = 0, drawDelay = 1500\<rparr>]"
  let ?g = "startGame 7000 created"
  let ?c = "checkWave 0 waveCleared"
  let ?s2 = "elapse 700 (checkWave 0 waveCleared)"
  note t1 = C7_wave_progression [of 1 waveCleared 0 ?dr ?evs 2]
  note t2 = C7_wave_progression [of 1 ?c 0 ?dr ?evs 2]
  note t3 = C7_wave_progression [of 1 ?g 0 ?dr ?evs 2]
  note t4 = C7_wave_progression [of 1 ?s2 0 ?dr ?evs 2]
  note t5 = C7_wave_progression [of 1 "endGame waveCleared" 0 ?dr ?evs 2]
  have h3: "gameStarted waveCleared \<and> \<not> isGameOver waveCleared"
    by (simp add: timer_eval)
  note c3 = t1 [THEN conjunct2, THEN conjunct2, THEN conjunct1, THEN mp, OF h3]
  have h5: "isGameOver waveCleared \<or> count (runs waveCleared 0) \<le> spawned (runs waveCleared 0)"
    by (simp add: timer_eval)
  note c5 = t1 [THEN conjunct2, THEN conjunct2, THEN conjunct2, THEN conjunct2, THEN conjunct1, THEN mp, OF h5]
  have h6: "\<not> isGameOver waveCleared \<and> count (runs waveCleared 0) \<le> spawned (runs waveCleared 0)
        \<and> countActive (enemies waveCleared) waveCleared = 0"
    by (simp add: timer_eval)
  note c6 = t1 [THEN conjunct2, THEN conjunct2, THEN conjunct2, THEN conjunct2, THEN conjunct2, THEN conjunct1, THEN mp, OF h6]
  have v: "wave waveCleared = 1 \<and> enemiesPerWave waveCleared = 4"
    by (simp add: timer_eval)
  have c6a: "wave ?c = 2" using c6 [THEN conjunct1] v by simp
  have c6b: "enemiesPerWave ?c = 5" using c6 [THEN conjunct2, THEN conjunct1] v by simp
  have h9: "(\<forall>t\<in>set (timers waveCleared). cb t \<noteq> NextWave) \<and> elapsedTime ?evs < 700"
    by (simp add: timer_eval)
  have h9a: "map cb (timers waveCleared) = [HeartTick, SpawnTick 0, CheckWave 0]"
    by (simp add: timer_eval)
  note c9 = t1 [THEN conjunct2, THEN conjunct2, THEN conjunct2, THEN conjunct2, THEN conjunct2, THEN conjunct2, THEN conjunct2, THEN conjunct2, THEN conjunct1, THEN mp, OF h9]
  have h8: "notDue NextWave (int (elapsedTime ?evs)) ?c \<and> elapsedTime ?evs < 700"
    by (simp add: timer_eval)
  note c8 = t2 [THEN conjunct2, THEN conjunct2, THEN conjunct2, THEN conjunct2, THEN conjunct2, THEN conjunct2, THEN conjunct2, THEN conjunct1, THEN mp, OF h8]
  have h4: "\<not> isGameOver ?g \<and> spawned (runs ?g 0) < count (runs ?g 0)"
    by (simp add: timer_eval)
  note c4 = t3 [THEN conjunct2, THEN conjunct2, THEN conjunct2, THEN conjunct1, THEN mp, OF h4, THEN conjunct2]
  have h7: "\<not> isGameOver ?g
        \<and> \<not> (count (runs ?g 0) \<le> spawned (runs ?g 0) \<and> countActive (enemies ?g) ?g = 0)"
    by (simp add: timer_eval)
  note c7 = t3 [THEN conjunct2, THEN conjunct2, THEN conjunct2, THEN conjunct2, THEN conjunct2, THEN conjunct2, THEN conjunct1, THEN mp, OF h7]
  have h10: "2 < length (timers ?s2) \<and> cb (timers ?s2 ! 2) = NextWave
        \<and> \<not> loop (timers ?s2 ! 2) \<and> delay (timers ?s2 ! 2) \<le> elapsed (timers ?s2 ! 2)"
    by (simp add: timer_eval)
  note c10 = t4 [THEN conjunct2, THEN conjunct2, THEN conjunct2, THEN conjunct2, THEN conjunct2, THEN conjunct2, THEN conjunct2, THEN conjunct2, THEN conjunct2, THEN conjunct1, THEN mp, OF h10]
  have h12: "isGameOver (endGame waveCleared)"
    by simp
  note c12 = t5 [THEN conjunct2, THEN conjunct2, THEN conjunct2, THEN conjunct2, THEN conjunct2, THEN conjunct2, THEN conjunct2, THEN conjunct2, THEN conjunct2, THEN conjunct2, THEN conjunct2, THEN conjunct1, THEN mp, OF h12]
  note t6 = C7_wave_progression [of 1 "elapse 500 waveCleared" 0 ?dr ?evs 2]
  have h13: "wavePhase waveCleared"
    by (simp add: timer_eval wavePhase_def)
  note c13 = t1 [THEN conjunct2, THEN conjunct2, THEN conjunct2, THEN conjunct2, THEN conjunct2, THEN conjunct2, THEN conjunct2, THEN conjunct2, THEN conjunct2, THEN conjunct2, THEN conjunct2, THEN conjunct2, THEN conjunct1, THEN mp, OF h13]
  have h14: "wavePhase (elapse 500 waveCleared) \<and> 2 < length (timers (elapse 500 waveCleared))
        \<and> cb (timers (elapse 500 waveCleared) ! 2) = CheckWave 0
        \<and> elapsedTime ?evs < 700"
    by (simp add: timer_eval wavePhase_def)
  note c14 = t6 [THEN conjunct2, THEN conjunct2, THEN conjunct2, THEN conjunct2, THEN conjunct2, THEN conjunct2, THEN conjunct2, THEN conjunct2, THEN conjunct2, THEN conjunct2, THEN conjunct2, THEN conjunct2, THEN conjunct2, THEN conjunct1, THEN mp, OF h14]
  show ?thesis
    by (intro conjI h3 c3 [THEN conjunct2, THEN conjunct2] h5 c5 h6 v [THEN conjunct1]
          v [THEN conjunct2] c6a c6b h9a h9 [THEN conjunct2] c9 h8 c8 h4 c4 h7 c7 h10 c10 h12 c12 h13 c13 h14 c14)
qed

end
